theory Spec2Isabelle
  imports Complex_Main
begin

section \<open>Arrays, errors and dictionaries\<close>

text \<open>
  A two-dimensional array (a numpy array or a scipy sparse matrix) is its shape and its
  entries; only entries inside the shape are ever read. A one-dimensional array is a list.
  Entries are real numbers: the arithmetic of the source is modelled exactly, without
  rounding.
\<close>

datatype mat = Mat (nr: nat) (nc: nat) (ent: "nat \<Rightarrow> nat \<Rightarrow> real")

type_synonym vec = "real list"

text \<open>The Python exceptions that the source, numpy and scipy raise on the paths modelled.\<close>

datatype error = AssertionError | KeyError string | ValueError | IndexError | ZeroDivisionError

definition ebind :: "error + 'a \<Rightarrow> ('a \<Rightarrow> error + 'b) \<Rightarrow> error + 'b" where
  "ebind r f = (case r of Inl e \<Rightarrow> Inl e | Inr x \<Rightarrow> f x)"

text \<open>
  A Python dictionary is an association list in insertion order with distinct keys.
  \<open>d[k]\<close> raises KeyError on a missing key; \<open>d[k] = v\<close> replaces the value of a
  present key where it stands and appends a new key at the end.
\<close>

type_synonym 'v dict = "(string \<times> 'v) list"

definition keys :: "'v dict \<Rightarrow> string list" where
  "keys d = map fst d"

definition dict_get :: "'v dict \<Rightarrow> string \<Rightarrow> error + 'v" where
  "dict_get d k = (case map_of d k of None \<Rightarrow> Inl (KeyError k) | Some v \<Rightarrow> Inr v)"

fun dict_set :: "'v dict \<Rightarrow> string \<Rightarrow> 'v \<Rightarrow> 'v dict" where
  "dict_set [] k v = [(k, v)]"
| "dict_set (p # ps) k v = (if fst p = k then (k, v) # ps else p # dict_set ps k v)"

subsection \<open>numpy and scipy operations\<close>

text \<open>\<open>np.sum(A, 0)\<close>: the column sums; \<open>np.sum(A, 1)\<close>: the row sums.\<close>

definition np_sum0 :: "mat \<Rightarrow> vec" where
  "np_sum0 A = map (\<lambda>j. \<Sum>i<nr A. ent A i j) [0..<nc A]"

definition np_sum1 :: "mat \<Rightarrow> vec" where
  "np_sum1 A = map (\<lambda>i. \<Sum>j<nc A. ent A i j) [0..<nr A]"

definition transpose_m :: "mat \<Rightarrow> mat" where
  "transpose_m A = Mat (nc A) (nr A) (\<lambda>i j. ent A j i)"

text \<open>
  Elementwise operations of numpy broadcast: an axis of length 1 is stretched to the
  length of the other operand's axis, and any other disagreement of the shapes raises
  ValueError.
\<close>

definition bc_ok :: "nat \<Rightarrow> nat \<Rightarrow> bool" where
  "bc_ok n m = (n = m \<or> n = 1 \<or> m = 1)"

definition bc_len :: "nat \<Rightarrow> nat \<Rightarrow> nat" where
  "bc_len n m = (if n = 1 then m else n)"

definition bc_nth :: "vec \<Rightarrow> nat \<Rightarrow> real" where
  "bc_nth v i = v ! (if length v = 1 then 0 else i)"

definition bc_ent :: "mat \<Rightarrow> nat \<Rightarrow> nat \<Rightarrow> real" where
  "bc_ent A i j = ent A (if nr A = 1 then 0 else i) (if nc A = 1 then 0 else j)"

definition np_add_v :: "vec \<Rightarrow> vec \<Rightarrow> error + vec" where
  "np_add_v u v =
     (if bc_ok (length u) (length v)
      then Inr (map (\<lambda>i. bc_nth u i + bc_nth v i) [0..<bc_len (length u) (length v)])
      else Inl ValueError)"

definition np_sub_v :: "vec \<Rightarrow> vec \<Rightarrow> error + vec" where
  "np_sub_v u v =
     (if bc_ok (length u) (length v)
      then Inr (map (\<lambda>i. bc_nth u i - bc_nth v i) [0..<bc_len (length u) (length v)])
      else Inl ValueError)"

definition np_add :: "mat \<Rightarrow> mat \<Rightarrow> error + mat" where
  "np_add A B =
     (if bc_ok (nr A) (nr B) \<and> bc_ok (nc A) (nc B)
      then Inr (Mat (bc_len (nr A) (nr B)) (bc_len (nc A) (nc B))
                  (\<lambda>i j. bc_ent A i j + bc_ent B i j))
      else Inl ValueError)"

definition np_sub :: "mat \<Rightarrow> mat \<Rightarrow> error + mat" where
  "np_sub A B =
     (if bc_ok (nr A) (nr B) \<and> bc_ok (nc A) (nc B)
      then Inr (Mat (bc_len (nr A) (nr B)) (bc_len (nc A) (nc B))
                  (\<lambda>i j. bc_ent A i j - bc_ent B i j))
      else Inl ValueError)"

text \<open>\<open>alpha + d2\<close> with a scalar \<open>alpha\<close>, and \<open>alpha * M\<close>.\<close>

definition scalar_add_v :: "real \<Rightarrow> vec \<Rightarrow> vec" where
  "scalar_add_v a v = map (\<lambda>x. a + x) v"

definition scalar_mul :: "real \<Rightarrow> mat \<Rightarrow> mat" where
  "scalar_mul a M = Mat (nr M) (nc M) (\<lambda>i j. a * ent M i j)"

text \<open>\<open>np.diag(v)\<close> of a one-dimensional \<open>v\<close>, and \<open>np.eye(N)\<close>, \<open>sp.eye(N)\<close>.\<close>

definition np_diag :: "vec \<Rightarrow> mat" where
  "np_diag v = Mat (length v) (length v) (\<lambda>i j. if i = j then v ! i else 0)"

definition eye :: "nat \<Rightarrow> mat" where
  "eye N = Mat N N (\<lambda>i j. if i = j then 1 else 0)"

text \<open>
  \<open>spdiags(data, 0, m, n)\<close>: the sparse \<open>m\<close> by \<open>n\<close> matrix with \<open>data\<close> on its main
  diagonal, as far as \<open>data\<close> reaches. The difference of a sparse matrix and another
  matrix is defined for equal shapes only.
\<close>

definition spdiags :: "vec \<Rightarrow> nat \<Rightarrow> nat \<Rightarrow> mat" where
  "spdiags data m n = Mat m n (\<lambda>i j. if i = j \<and> i < length data then data ! i else 0)"

definition sp_sub :: "mat \<Rightarrow> mat \<Rightarrow> error + mat" where
  "sp_sub S B =
     (if nr S = nr B \<and> nc S = nc B
      then Inr (Mat (nr S) (nc S) (\<lambda>i j. ent S i j - ent B i j))
      else Inl ValueError)"

text \<open>
  \<open>operator.resize((m, n))\<close> keeps the entries inside both shapes and fills the rest with
  zeros; \<open>operator[i, j] = v\<close> stores one entry.
\<close>

definition resize :: "mat \<Rightarrow> nat \<Rightarrow> nat \<Rightarrow> mat" where
  "resize M m n = Mat m n (\<lambda>i j. if i < nr M \<and> j < nc M then ent M i j else 0)"

definition set_ent :: "mat \<Rightarrow> nat \<Rightarrow> nat \<Rightarrow> real \<Rightarrow> mat" where
  "set_ent M i j v = Mat (nr M) (nc M) (\<lambda>a b. if a = i \<and> b = j then v else ent M a b)"

subsection \<open>The solvers of \<open>scipy.sparse.linalg\<close>\<close>

text \<open>
  The solvers are library code and are parameters here. \<open>bicgstab\<close> returns the iterate
  and the integer \<open>info\<close> (0 on convergence, positive when the iteration budget ran out);
  \<open>lsqr\<close> returns its solution and its stop code (its further outputs are not used by the
  source); \<open>spsolve\<close> returns the solution. Each may raise.
\<close>

record linalg =
  spsolve :: "mat \<Rightarrow> vec \<Rightarrow> error + vec"
  bicgstab :: "mat \<Rightarrow> vec \<Rightarrow> error + (vec \<times> int)"
  lsqr :: "mat \<Rightarrow> vec \<Rightarrow> error + (vec \<times> int)"

section \<open>The rank computations\<close>

subsection \<open>\<open>csr_SpringRank\<close>\<close>

text \<open>
  Lines 23 to 40 of the source: the operator and the right-hand side handed to the solver.
\<close>

definition csr_SpringRank_system :: "mat \<Rightarrow> error + (mat \<times> vec)" where
  "csr_SpringRank_system A =
     (let N = nr A; k_in = np_sum0 A; k_out = np_sum1 A in
      ebind (np_add_v k_out k_in) (\<lambda>kk.
      ebind (sp_sub (spdiags kk N N) A) (\<lambda>S.
      ebind (sp_sub S (transpose_m A)) (\<lambda>L.
      let operator = set_ent (set_ent (resize L (N + 1) (N + 1)) N 0 1) 0 N 1 in
      ebind (np_sub_v k_out k_in) (\<lambda>d.
      Inr (operator, d @ [0]))))))"

definition csr_SpringRank :: "linalg \<Rightarrow> mat \<Rightarrow> error + vec" where
  "csr_SpringRank la A =
     ebind (csr_SpringRank_system A) (\<lambda>(operator, solution_vector).
     ebind (bicgstab la operator solution_vector) (\<lambda>out.
     Inr (butlast (fst out))))"

subsection \<open>\<open>SpringRank\<close>\<close>

text \<open>Lines 69 to 78: the operator and the right-hand side of the branch \<open>alpha \<noteq> 0\<close>.\<close>

definition SpringRank_system :: "mat \<Rightarrow> real \<Rightarrow> error + (mat \<times> vec)" where
  "SpringRank_system A alpha =
     (let N = nr A; k_in = np_sum0 A; k_out = np_sum1 A in
      ebind (np_add A (transpose_m A)) (\<lambda>C.
      ebind (np_add_v k_out k_in) (\<lambda>kk.
      let D1 = np_diag kk in
      ebind (np_sub_v k_out k_in) (\<lambda>d2.
      let B = scalar_add_v alpha d2 in
      ebind (np_add (scalar_mul alpha (eye N)) D1) (\<lambda>S.
      ebind (np_sub S C) (\<lambda>A'.
      Inr (A', B)))))))"

definition SpringRank :: "linalg \<Rightarrow> mat \<Rightarrow> real \<Rightarrow> error + vec" where
  "SpringRank la A alpha =
     (if alpha = 0 then csr_SpringRank la A
      else ebind (SpringRank_system A alpha) (\<lambda>(A', B).
           ebind (bicgstab la A' B) (\<lambda>out.
           Inr (fst out))))"

subsection \<open>\<open>SpringRank_groups\<close>\<close>

text \<open>
  The matrix product \<open>A @ B\<close> raises ValueError unless the inner dimensions agree, and so
  does \<open>np.matmul\<close> of a matrix and a vector. \<open>sp.hstack\<close> and \<open>sp.vstack\<close> put
  blocks side by side and on top of each other. The sum of two sparse matrices is defined
  for equal shapes only.
\<close>

definition matmul :: "mat \<Rightarrow> mat \<Rightarrow> mat" where
  "matmul A B = Mat (nr A) (nc B) (\<lambda>i j. \<Sum>k<nc A. ent A i k * ent B k j)"

definition matmul_checked :: "mat \<Rightarrow> mat \<Rightarrow> error + mat" where
  "matmul_checked A B = (if nc A = nr B then Inr (matmul A B) else Inl ValueError)"

definition matvec :: "mat \<Rightarrow> vec \<Rightarrow> vec" where
  "matvec A v = map (\<lambda>i. \<Sum>k<nc A. ent A i k * v ! k) [0..<nr A]"

definition np_matmul_v :: "mat \<Rightarrow> vec \<Rightarrow> error + vec" where
  "np_matmul_v A v = (if nc A = length v then Inr (matvec A v) else Inl ValueError)"

definition hstack :: "mat \<Rightarrow> mat \<Rightarrow> mat" where
  "hstack A B =
     Mat (nr A) (nc A + nc B) (\<lambda>i j. if j < nc A then ent A i j else ent B i (j - nc A))"

definition vstack :: "mat \<Rightarrow> mat \<Rightarrow> mat" where
  "vstack A B =
     Mat (nr A + nr B) (nc A) (\<lambda>i j. if i < nr A then ent A i j else ent B (i - nr A) j)"

definition madd :: "mat \<Rightarrow> mat \<Rightarrow> mat" where
  "madd A B = Mat (nr A) (nc A) (\<lambda>i j. ent A i j + ent B i j)"

definition sp_add :: "mat \<Rightarrow> mat \<Rightarrow> error + mat" where
  "sp_add S B = (if nr S = nr B \<and> nc S = nc B then Inr (madd S B) else Inl ValueError)"

text \<open>
  \<open>ranks += v\<close> on one-dimensional arrays keeps the shape of \<open>ranks\<close>: \<open>v\<close> has the
  same length or length 1, and anything else raises ValueError.
\<close>

definition np_iadd_v :: "vec \<Rightarrow> vec \<Rightarrow> error + vec" where
  "np_iadd_v r v =
     (if length v = length r then Inr (map (\<lambda>i. r ! i + v ! i) [0..<length r])
      else if length v = 1 then Inr (map (\<lambda>a. a + v ! 0) r)
      else Inl ValueError)"

text \<open>
  Lines 113 to 117 fill \<open>num_groups\<close> and \<open>G_sparse\<close>, lines 120 to 122 fill \<open>blocks\<close>;
  the product \<open>L @ G_i\<close> is where a group matrix with a row count other than \<open>N\<close> fails.
\<close>

fun make_num_groups :: "mat dict \<Rightarrow> nat dict \<Rightarrow> nat dict" where
  "make_num_groups [] num_groups = num_groups"
| "make_num_groups ((group_type, G_i) # G) num_groups =
     make_num_groups G (dict_set num_groups group_type (nc G_i))"

fun make_G_sparse :: "mat dict \<Rightarrow> mat dict \<Rightarrow> mat dict" where
  "make_G_sparse [] G_sparse = G_sparse"
| "make_G_sparse ((group_type, G_i) # G) G_sparse =
     make_G_sparse G (dict_set G_sparse group_type G_i)"

fun make_blocks :: "mat \<Rightarrow> mat dict \<Rightarrow> mat dict \<Rightarrow> error + mat dict" where
  "make_blocks L [] blocks = Inr blocks"
| "make_blocks L ((group_type, G_i) # G) blocks =
     ebind (matmul_checked L G_i) (\<lambda>B. make_blocks L G (dict_set blocks group_type B))"

text \<open>
  Lines 125 and 126: the first block row. From here to the solve the shapes of all
  operands agree by construction (every block has \<open>N\<close> rows once line 122 has succeeded
  for every group), so the products and stackings are written without their shape checks.
\<close>

fun first_row :: "mat dict \<Rightarrow> mat dict \<Rightarrow> mat \<Rightarrow> error + mat" where
  "first_row blocks [] K = Inr K"
| "first_row blocks ((group_type, G_i) # G) K =
     ebind (dict_get blocks group_type) (\<lambda>B. first_row blocks G (hstack K B))"

text \<open>Lines 137 to 141: one block row, over \<open>blocks.items()\<close>.\<close>

fun row_blocks :: "mat \<Rightarrow> string \<Rightarrow> real \<Rightarrow> nat \<Rightarrow> mat dict \<Rightarrow> mat \<Rightarrow> mat" where
  "row_blocks GT group_type lambda_i n_i [] current_row = current_row"
| "row_blocks GT group_type lambda_i n_i ((block_type, block) # bs) current_row =
     row_blocks GT group_type lambda_i n_i bs
       (if block_type = group_type
        then hstack current_row (madd (matmul GT block) (scalar_mul lambda_i (eye n_i)))
        else hstack current_row (matmul GT block))"

text \<open>Lines 130 to 145: the block rows and the right-hand side, over \<open>reg_coeff.items()\<close>.\<close>

fun group_rows ::
  "mat \<Rightarrow> mat dict \<Rightarrow> mat dict \<Rightarrow> nat dict \<Rightarrow> mat dict \<Rightarrow> vec \<Rightarrow> real dict \<Rightarrow> mat \<times> vec
   \<Rightarrow> error + (mat \<times> vec)" where
  "group_rows L G G_sparse num_groups blocks k_diff [] (K, d_hat) = Inr (K, d_hat)"
| "group_rows L G G_sparse num_groups blocks k_diff ((group_type, lambda_i) # reg_coeff) (K, d_hat) =
     (if group_type = ''individual''
      then group_rows L G G_sparse num_groups blocks k_diff reg_coeff (K, d_hat)
      else
        ebind (dict_get G_sparse group_type) (\<lambda>G_i_sparse.
        ebind (dict_get G group_type) (\<lambda>G_i.
        ebind (dict_get num_groups group_type) (\<lambda>n_i.
        let current_row =
              row_blocks (transpose_m G_i_sparse) group_type lambda_i n_i blocks
                (matmul (transpose_m G_i_sparse) L);
            d_i = matvec (transpose_m G_i) k_diff
        in group_rows L G G_sparse num_groups blocks k_diff reg_coeff
             (vstack K current_row, d_hat @ d_i)))))"

text \<open>Lines 106 to 109: the Laplacian of a square \<open>A\<close>.\<close>

definition construct_laplacian :: "mat \<Rightarrow> error + mat" where
  "construct_laplacian A =
     (let k_in = np_sum0 A; k_out = np_sum1 A in
      ebind (np_add_v k_out k_in) (\<lambda>kk.
      let D = np_diag kk in
      ebind (np_add A (transpose_m A)) (\<lambda>C.
      np_sub D C)))"

text \<open>Lines 102 to 145: the operator \<open>K\<close>, the right-hand side \<open>d_hat\<close> and \<open>num_groups\<close>.\<close>

definition SpringRank_groups_system ::
  "mat \<Rightarrow> mat dict \<Rightarrow> real dict \<Rightarrow> error + (mat \<times> vec \<times> nat dict)" where
  "SpringRank_groups_system A G reg_coeff =
     (let N = nr A; M = nc A in
      if N \<noteq> M then Inl AssertionError
      else
        let k_in = np_sum0 A; k_out = np_sum1 A in
        ebind (construct_laplacian A) (\<lambda>L.
        let num_groups = make_num_groups G [];
            G_sparse = make_G_sparse G [] in
        ebind (make_blocks L G []) (\<lambda>blocks.
        ebind (dict_get reg_coeff ''individual'') (\<lambda>lambda_0.
        ebind (sp_add L (scalar_mul lambda_0 (eye N))) (\<lambda>K0.
        ebind (first_row blocks G K0) (\<lambda>K.
        ebind (np_sub_v k_out k_in) (\<lambda>k_diff.
        ebind (group_rows L G G_sparse num_groups blocks k_diff reg_coeff (K, k_diff))
          (\<lambda>(K, d_hat).
        Inr (K, d_hat, num_groups)))))))))"

text \<open>Lines 148 to 158: the choice of the solver; an unknown name means \<open>bicgstab\<close>.\<close>

definition run_solver :: "linalg \<Rightarrow> string \<Rightarrow> mat \<Rightarrow> vec \<Rightarrow> error + vec" where
  "run_solver la solver K d_hat =
     (if solver = ''spsolve'' then spsolve la K d_hat
      else if solver = ''bicgstab'' then ebind (bicgstab la K d_hat) (\<lambda>out. Inr (fst out))
      else if solver = ''lsqr'' then ebind (lsqr la K d_hat) (\<lambda>out. Inr (fst out))
      else ebind (bicgstab la K d_hat) (\<lambda>out. Inr (fst out)))"

text \<open>Lines 171 to 174: the scores of each group type and the combined ranks.\<close>

fun rearrange ::
  "mat dict \<Rightarrow> vec \<Rightarrow> nat dict \<Rightarrow> vec dict \<times> vec \<times> nat \<Rightarrow> error + (vec dict \<times> vec \<times> nat)" where
  "rearrange G x [] (scores, ranks, prev_idx) = Inr (scores, ranks, prev_idx)"
| "rearrange G x ((group_type, n_i) # num_groups) (scores, ranks, prev_idx) =
     (let scores' = dict_set scores group_type (take n_i (drop prev_idx x)) in
      ebind (dict_get G group_type) (\<lambda>G_t.
      ebind (dict_get scores' group_type) (\<lambda>s.
      ebind (np_matmul_v G_t s) (\<lambda>v.
      ebind (np_iadd_v ranks v) (\<lambda>ranks'.
      rearrange G x num_groups (scores', ranks', prev_idx + n_i))))))"

definition SpringRank_groups ::
  "linalg \<Rightarrow> mat \<Rightarrow> mat dict \<Rightarrow> real dict \<Rightarrow> string \<Rightarrow> error + (vec \<times> vec dict)" where
  "SpringRank_groups la A G reg_coeff solver =
     ebind (SpringRank_groups_system A G reg_coeff) (\<lambda>(K, d_hat, num_groups).
     ebind (run_solver la solver K d_hat) (\<lambda>x.
     let N = nr A;
         scores = dict_set [] ''individual'' (take N x);
         ranks = take N x
     in ebind (rearrange G x num_groups (scores, ranks, N)) (\<lambda>(scores, ranks, prev_idx).
        Inr (ranks, scores))))"

section \<open>The generative samplers\<close>

subsection \<open>Random sources\<close>

text \<open>
  A random source is a state; its sampling methods are library code and are parameters
  here, each taking the state and returning one draw and the next state:
  \<open>normal1 loc scale\<close>, \<open>randint1 low high\<close> (a draw from \<open>low\<close> up to \<open>high - 1\<close>) and
  \<open>poisson1 lam\<close>. A call with a size draws that many values in sequence. The
  module-level functions \<open>np.random.normal\<close>, \<open>np.random.randint\<close> and
  \<open>np.random.poisson\<close> work on the global source of numpy, which is passed and returned
  explicitly; a supplied generator \<open>prng\<close> is a source of its own.
\<close>

record 's random_ops =
  normal1 :: "real \<Rightarrow> real \<Rightarrow> 's \<Rightarrow> real \<times> 's"
  randint1 :: "nat \<Rightarrow> nat \<Rightarrow> 's \<Rightarrow> nat \<times> 's"
  poisson1 :: "real \<Rightarrow> 's \<Rightarrow> nat \<times> 's"

fun draws :: "('s \<Rightarrow> 'a \<times> 's) \<Rightarrow> nat \<Rightarrow> 's \<Rightarrow> 'a list \<times> 's" where
  "draws f 0 s = ([], s)"
| "draws f (Suc n) s =
     (case f s of (x, s') \<Rightarrow> (case draws f n s' of (xs, s'') \<Rightarrow> (x # xs, s'')))"

text \<open>
  \<open>1 / np.sqrt(alpha * beta)\<close> is a real number when \<open>alpha * beta\<close> is positive.
  Otherwise numpy computes \<open>inf\<close> or \<open>nan\<close>, with a warning and without an exception, and
  the source goes on with these values; exact real arithmetic has no such values, so the
  model stops there with the marker \<open>NotFinite\<close>, which is not a Python exception.
\<close>

datatype 'a outcome = Raised error | NotFinite | Returned 'a

definition prior_scale :: "real \<Rightarrow> real \<Rightarrow> real outcome" where
  "prior_scale alpha beta =
     (if 0 < alpha * beta then Returned (1 / sqrt (alpha * beta)) else NotFinite)"

definition lookup :: "'v dict \<Rightarrow> string \<Rightarrow> 'v outcome" where
  "lookup d k = (case map_of d k of None \<Rightarrow> Raised (KeyError k) | Some v \<Rightarrow> Returned v)"

subsection \<open>The energies and the Poisson means\<close>

text \<open>
  Lines 204 to 212 and 286 to 293: the scaled energies of all ordered pairs, their sum
  \<open>Z\<close> over all \<open>N * N\<close> pairs, and the constant \<open>c\<close>. The ungrouped sampler has the rest
  length 1 built in. The pairs are visited row by row.
\<close>

definition all_pairs :: "nat \<Rightarrow> (nat \<times> nat) list" where
  "all_pairs N = List.product [0..<N] [0..<N]"


definition scaled_exp_energy :: "real \<Rightarrow> real \<Rightarrow> vec \<Rightarrow> nat \<Rightarrow> nat \<Rightarrow> real" where
  "scaled_exp_energy beta l1 ranks i j =
     (let energy_ij = 0.5 * (ranks ! i - ranks ! j - l1) ^ 2
      in exp (- beta * energy_ij))"

definition partition_sum :: "(nat \<Rightarrow> nat \<Rightarrow> real) \<Rightarrow> nat \<Rightarrow> real" where
  "partition_sum w N = sum_list (map (\<lambda>(i, j). w i j) (all_pairs N))"

text \<open>
  The pairs for which an edge is sampled (lines 215 to 219 and 300 to 306): the pairs
  \<open>i = j\<close> are skipped unless self loops are allowed, which the ungrouped sampler never
  does. \<open>poisson_means\<close> lists the means handed to \<open>np.random.poisson\<close>, in order.
\<close>

definition sampled_pairs :: "nat \<Rightarrow> bool \<Rightarrow> (nat \<times> nat) list" where
  "sampled_pairs N allow_self_loops =
     filter (\<lambda>(i, j). \<not> (i = j \<and> \<not> allow_self_loops)) (all_pairs N)"


subsection \<open>\<open>SpringRank_planted_network\<close>\<close>




subsection \<open>\<open>SpringRank_planted_network_groups\<close>\<close>

text \<open>
  The graph \<open>nx.DiGraph\<close>: the nodes with their \<open>score\<close> attribute and the edges with their
  \<open>weight\<close>, in the order in which they are added.
\<close>

record graph =
  nodes :: "(nat \<times> real) list"
  edges :: "((nat \<times> nat) \<times> nat) list"

datatype groups_result =
  Graph_groups graph "mat dict"
| Graph_groups_scores_ranks graph "mat dict" "vec dict" vec

text \<open>
  Lines 273 and 274: the indicator matrix of the drawn groups; an index outside the
  matrix raises IndexError.
\<close>

fun assign_groups :: "nat \<Rightarrow> nat list \<Rightarrow> nat \<Rightarrow> mat \<Rightarrow> mat outcome" where
  "assign_groups n_i [] j G_i = Returned G_i"
| "assign_groups n_i (g_j # gs) j G_i =
     (if g_j < n_i then assign_groups n_i gs (j + 1) (set_ent G_i j g_j 1)
      else Raised IndexError)"

definition vadd :: "vec \<Rightarrow> vec \<Rightarrow> vec" where
  "vadd r v = map (\<lambda>i. r ! i + v ! i) [0..<length r]"

text \<open>
  Lines 267 to 283, over the items of \<open>num_groups\<close>: the group assignment is drawn from
  the global source (\<open>np.random.randint\<close>, which raises ValueError when \<open>n_i\<close> is 0), the
  scores from the supplied generator \<open>prng\<close>. The loop carries \<open>G\<close>, \<open>scores\<close>, \<open>ranks\<close>
  and the two sources.
\<close>

fun group_loop ::
  "'s random_ops \<Rightarrow> nat \<Rightarrow> real \<Rightarrow> real dict \<Rightarrow> real dict \<Rightarrow> nat dict
   \<Rightarrow> mat dict \<times> vec dict \<times> vec \<Rightarrow> 's \<Rightarrow> 's
   \<Rightarrow> (mat dict \<times> vec dict \<times> vec) outcome \<times> 's \<times> 's" where
  "group_loop ops N beta alpha l0 [] (G, scores, ranks) prng g =
     (Returned (G, scores, ranks), prng, g)"
| "group_loop ops N beta alpha l0 ((group_type, n_i) # num_groups) (G, scores, ranks) prng g =
     (if n_i = 0 then (Raised ValueError, prng, g)
      else
        case draws (randint1 ops 0 n_i) N g of (groups_i, g') \<Rightarrow>
        (case assign_groups n_i groups_i 0 (Mat N n_i (\<lambda>i j. 0)) of
           Raised e \<Rightarrow> (Raised e, prng, g')
         | NotFinite \<Rightarrow> (NotFinite, prng, g')
         | Returned G_i \<Rightarrow>
            (case lookup alpha group_type of
               Raised e \<Rightarrow> (Raised e, prng, g')
             | NotFinite \<Rightarrow> (NotFinite, prng, g')
             | Returned alpha_i \<Rightarrow>
                (case lookup l0 group_type of
                   Raised e \<Rightarrow> (Raised e, prng, g')
                 | NotFinite \<Rightarrow> (NotFinite, prng, g')
                 | Returned l0_i \<Rightarrow>
                    (case prior_scale alpha_i beta of
                       Raised e \<Rightarrow> (Raised e, prng, g')
                     | NotFinite \<Rightarrow> (NotFinite, prng, g')
                     | Returned scale \<Rightarrow>
                        (case draws (normal1 ops l0_i scale) n_i prng of (s, prng') \<Rightarrow>
                           group_loop ops N beta alpha l0 num_groups
                             (dict_set G group_type G_i, dict_set scores group_type s,
                              vadd ranks (matvec G_i s))
                             prng' g'))))))"

text \<open>Lines 300 to 308: the edges, each count drawn from the global source.\<close>

fun sample_edges ::
  "'s random_ops \<Rightarrow> (nat \<Rightarrow> nat \<Rightarrow> real) \<Rightarrow> (nat \<times> nat) list \<Rightarrow> graph \<Rightarrow> 's \<Rightarrow> graph \<times> 's" where
  "sample_edges ops lam [] A g = (A, g)"
| "sample_edges ops lam ((i, j) # ps) A g =
     (case poisson1 ops (lam i j) g of
        (A_ij, g') \<Rightarrow>
          sample_edges ops lam ps
            (if A_ij > 0 then A\<lparr>edges := edges A @ [((i, j), A_ij)]\<rparr> else A) g')"

text \<open>
  The function takes the supplied generator \<open>prng\<close> and the global source \<open>g\<close> and
  returns both with the result.
\<close>

definition SpringRank_planted_network_groups ::
  "'s random_ops \<Rightarrow> nat \<Rightarrow> nat dict \<Rightarrow> real \<Rightarrow> real dict \<Rightarrow> real \<Rightarrow> 's \<Rightarrow> real dict \<Rightarrow> real
   \<Rightarrow> bool \<Rightarrow> bool \<Rightarrow> 's \<Rightarrow> groups_result outcome \<times> 's \<times> 's" where
  "SpringRank_planted_network_groups ops N num_groups beta alpha K prng l0 l1
       allow_self_loops return_ranks g =
     (case lookup alpha ''individual'' of
        Raised e \<Rightarrow> (Raised e, prng, g)
      | NotFinite \<Rightarrow> (NotFinite, prng, g)
      | Returned alpha_i \<Rightarrow>
     (case lookup l0 ''individual'' of
        Raised e \<Rightarrow> (Raised e, prng, g)
      | NotFinite \<Rightarrow> (NotFinite, prng, g)
      | Returned l0_i \<Rightarrow>
     (case prior_scale alpha_i beta of
        Raised e \<Rightarrow> (Raised e, prng, g)
      | NotFinite \<Rightarrow> (NotFinite, prng, g)
      | Returned scale \<Rightarrow>
     (case draws (normal1 ops l0_i scale) N prng of (s0, prng1) \<Rightarrow>
     (case group_loop ops N beta alpha l0 num_groups
             ([], dict_set [] ''individual'' s0, s0) prng1 g of
        (Raised e, prng2, g2) \<Rightarrow> (Raised e, prng2, g2)
      | (NotFinite, prng2, g2) \<Rightarrow> (NotFinite, prng2, g2)
      | (Returned (G, scores, ranks), prng2, g2) \<Rightarrow>
          if N = 0 then (Raised ZeroDivisionError, prng2, g2)
          else
            let Z = partition_sum (scaled_exp_energy beta l1 ranks) N;
                c = K * real N / Z;
                A0 = \<lparr>nodes = map (\<lambda>i. (i, ranks ! i)) [0..<N], edges = []\<rparr>
            in (case sample_edges ops (\<lambda>i j. c * scaled_exp_energy beta l1 ranks i j)
                       (sampled_pairs N allow_self_loops) A0 g2 of
                  (A, g3) \<Rightarrow>
                    if return_ranks
                    then (Returned (Graph_groups_scores_ranks A G scores ranks), prng2, g3)
                    else (Returned (Graph_groups A G), prng2, g3)))))))"


section \<open>Concrete inputs\<close>

text \<open>
  Solver stand-ins for evaluating the rank computations: each returns the right-hand
  side, cut or padded with zeros to the number of unknowns, as its solution. The first
  reports convergence of \<open>bicgstab\<close> (\<open>info = 0\<close>), the second reports that the iteration
  budget ran out (\<open>info > 0\<close>).
\<close>

definition pad_rhs :: "mat \<Rightarrow> vec \<Rightarrow> vec" where
  "pad_rhs K d = map (\<lambda>j. if j < length d then d ! j else 0) [0..<nc K]"

definition la_converged :: linalg where
  "la_converged =
     \<lparr>spsolve = (\<lambda>K d. Inr (pad_rhs K d)),
      bicgstab = (\<lambda>K d. Inr (pad_rhs K d, 0)),
      lsqr = (\<lambda>K d. Inr (pad_rhs K d, 1))\<rparr>"

definition la_stalled :: linalg where
  "la_stalled =
     \<lparr>spsolve = (\<lambda>K d. Inr (pad_rhs K d)),
      bicgstab = (\<lambda>K d. Inr (pad_rhs K d, 20)),
      lsqr = (\<lambda>K d. Inr (pad_rhs K d, 1))\<rparr>"

text \<open>The network on two nodes with the single edge from node 0 to node 1, of weight 1.\<close>

definition one_edge :: mat where
  "one_edge = Mat 2 2 (\<lambda>i j. if i = 0 \<and> j = 1 then 1 else 0)"

text \<open>
  One group type \<open>g\<close> with two groups, node 0 in group 0 and node 1 in group 1, and a
  second group type \<open>h\<close> with a single group holding both nodes.
\<close>

definition G_g :: mat where
  "G_g = Mat 2 2 (\<lambda>i j. if i = j then 1 else 0)"

definition G_h :: mat where
  "G_h = Mat 2 1 (\<lambda>i j. 1)"

section \<open>Notions used in the statements\<close>

text \<open>
  The Laplacian \<open>diag(k_in + k_out) - A - A\<^sup>T\<close> entry by entry, symmetry of a matrix, and
  the column (and row) at which the block of the group type at position \<open>s\<close> of \<open>G\<close>
  starts in the grouped operator.
\<close>

definition laplacian :: "mat \<Rightarrow> nat \<Rightarrow> nat \<Rightarrow> real" where
  "laplacian A i j =
     (if i = j then (\<Sum>k<nr A. ent A k i) + (\<Sum>k<nc A. ent A i k) else 0)
     - ent A i j - ent A j i"

definition symmetric_m :: "mat \<Rightarrow> bool" where
  "symmetric_m K = (nr K = nc K \<and> (\<forall>i<nr K. \<forall>j<nr K. ent K i j = ent K j i))"

definition offset :: "mat dict \<Rightarrow> nat \<Rightarrow> nat \<Rightarrow> nat" where
  "offset G N s = N + sum_list (map (\<lambda>p. nc (snd p)) (take s G))"

text \<open>
  The block row and the right-hand side block that lines 133 to 145 build for one item
  of \<open>reg_coeff\<close>.
\<close>

definition the_group :: "mat dict \<Rightarrow> string \<Rightarrow> mat" where
  "the_group G t = the (map_of G t)"

definition group_row :: "mat \<Rightarrow> mat dict \<Rightarrow> mat dict \<Rightarrow> string \<times> real \<Rightarrow> mat" where
  "group_row L G blocks q =
     row_blocks (transpose_m (the_group G (fst q))) (fst q) (snd q) (nc (the_group G (fst q)))
       blocks (matmul (transpose_m (the_group G (fst q))) L)"

definition group_rhs :: "mat dict \<Rightarrow> vec \<Rightarrow> string \<times> real \<Rightarrow> vec" where
  "group_rhs G k_diff q = matvec (transpose_m (the_group G (fst q))) k_diff"

definition coefficient :: "real dict \<Rightarrow> string \<Rightarrow> real" where
  "coefficient reg_coeff t = the (map_of reg_coeff t)"

text \<open>One block of a block row (lines 138 to 141).\<close>

definition row_block :: "mat \<Rightarrow> string \<Rightarrow> real \<Rightarrow> nat \<Rightarrow> string \<times> mat \<Rightarrow> mat" where
  "row_block GT t lam n p =
     (if fst p = t then madd (matmul GT (snd p)) (scalar_mul lam (eye n)) else matmul GT (snd p))"

text \<open>
  The block structure of the grouped operator: \<open>lambda_individual * I + L\<close> in the top-left
  corner, \<open>L G\<^sub>s\<close> to its right, \<open>G\<^sub>t\<^sup>T L\<close> below it, and \<open>G\<^sub>t\<^sup>T L G\<^sub>s\<close> in the block
  of the group types \<open>t\<close> and \<open>s\<close>, with \<open>lambda\<^sub>t\<close> added on the diagonal of the block
  \<open>t = s\<close>.
\<close>

definition block_structure :: "mat \<Rightarrow> mat dict \<Rightarrow> real dict \<Rightarrow> nat \<Rightarrow> mat \<Rightarrow> bool" where
  "block_structure A G reg_coeff N K =
     ((\<forall>i<N. \<forall>j<N. ent K i j =
          laplacian A i j + (if i = j then coefficient reg_coeff ''individual'' else 0))
    \<and> (\<forall>s<length G. \<forall>i<N. \<forall>b<nc (snd (G ! s)). ent K i (offset G N s + b) =
          (\<Sum>k<N. laplacian A i k * ent (snd (G ! s)) k b))
    \<and> (\<forall>t<length G. \<forall>a<nc (snd (G ! t)). \<forall>j<N. ent K (offset G N t + a) j =
          (\<Sum>k<N. ent (snd (G ! t)) k a * laplacian A k j))
    \<and> (\<forall>t<length G. \<forall>s<length G. \<forall>a<nc (snd (G ! t)). \<forall>b<nc (snd (G ! s)).
          ent K (offset G N t + a) (offset G N s + b) =
          (\<Sum>k<N. ent (snd (G ! t)) k a * (\<Sum>l<N. laplacian A k l * ent (snd (G ! s)) l b))
          + (if t = s \<and> a = b then coefficient reg_coeff (fst (G ! t)) else 0)))"

text \<open>
  Two group types on the two-node network; coefficients whose keys follow the order of
  \<open>G\<close>, coefficients whose group keys are in the other order, and coefficients that
  lack the key \<open>h\<close>; one entry of the assembled operator.
\<close>

definition two_types :: "mat dict" where
  "two_types = [(''g'', G_g), (''h'', G_h)]"

definition reg_aligned :: "real dict" where
  "reg_aligned = [(''individual'', 1), (''g'', 2), (''h'', 3)]"

definition reg_swapped :: "real dict" where
  "reg_swapped = [(''individual'', 1), (''h'', 3), (''g'', 2)]"

definition reg_without_h :: "real dict" where
  "reg_without_h = [(''individual'', 1), (''g'', 2)]"

definition operator_entry :: "error + (mat \<times> vec \<times> nat dict) \<Rightarrow> nat \<Rightarrow> nat \<Rightarrow> error + real" where
  "operator_entry r i j = ebind r (\<lambda>(K, d_hat, num_groups). Inr (ent K i j))"

definition operator_shape :: "error + (mat \<times> vec \<times> nat dict) \<Rightarrow> error + (nat \<times> nat)" where
  "operator_shape r = ebind r (\<lambda>(K, d_hat, num_groups). Inr (nr K, nc K))"

text \<open>
  The decomposition of the ranks as the specification words it: the individual scores
  plus, for every group type \<open>t\<close> of \<open>G\<close>, the product of \<open>G\<^sub>t\<close> and the scores of \<open>t\<close>,
  read off the returned \<open>scores\<close> mapping; the sum is numpy's, as in the source.
\<close>

fun add_group_terms :: "mat dict \<Rightarrow> vec dict \<Rightarrow> vec \<Rightarrow> error + vec" where
  "add_group_terms [] scores r = Inr r"
| "add_group_terms ((t, G_t) # G) scores r =
     ebind (dict_get scores t) (\<lambda>s.
     ebind (np_matmul_v G_t s) (\<lambda>v.
     ebind (np_iadd_v r v) (\<lambda>r'.
     add_group_terms G scores r')))"

definition recombine :: "mat dict \<Rightarrow> vec dict \<Rightarrow> error + vec" where
  "recombine G scores =
     ebind (dict_get scores ''individual'') (\<lambda>s0. add_group_terms G scores s0)"




definition result_groups :: "groups_result \<Rightarrow> mat dict" where
  "result_groups r =
     (case r of Graph_groups A G \<Rightarrow> G | Graph_groups_scores_ranks A G scores ranks \<Rightarrow> G)"

definition membership_row :: "groups_result outcome \<Rightarrow> string \<Rightarrow> nat \<Rightarrow> vec outcome" where
  "membership_row r t i =
     (case r of
        Raised e \<Rightarrow> Raised e
      | NotFinite \<Rightarrow> NotFinite
      | Returned res \<Rightarrow>
          (case lookup (result_groups res) t of
             Raised e \<Rightarrow> Raised e
           | NotFinite \<Rightarrow> NotFinite
           | Returned G_t \<Rightarrow> Returned (map (\<lambda>j. ent G_t i j) [0..<nc G_t])))"


text \<open>
  A stand-in random source whose state counts the draws: a normal draw returns its mean,
  an integer draw returns \<open>low + state mod (high - low)\<close>, a Poisson draw returns
  \<open>state mod 2\<close>.
\<close>

definition counter_ops :: "nat random_ops" where
  "counter_ops =
     \<lparr>normal1 = (\<lambda>loc scale s. (loc, s + 1)),
      randint1 = (\<lambda>low high s. (low + s mod (high - low), s + 1)),
      poisson1 = (\<lambda>lam s. (s mod 2, s + 1))\<rparr>"

text \<open>
  A call of the grouped sampler on one node and one group type with two groups, with the
  supplied generator in the state \<open>prng\<close> and the global source in the state \<open>g\<close>.
\<close>

definition one_node_call :: "nat \<Rightarrow> nat \<Rightarrow> groups_result outcome \<times> nat \<times> nat" where
  "one_node_call prng g =
     SpringRank_planted_network_groups counter_ops 1 [(''g'', 2)] 1
       [(''individual'', 1), (''g'', 1)] 1 prng [(''individual'', 1 / 2), (''g'', 0)] 1
       False True g"


section \<open>Basic facts about the operations\<close>

lemma ebind_Inr [simp]: "ebind (Inr x) f = f x"
  by (simp add: ebind_def)

lemma ebind_Inl [simp]: "ebind (Inl e) f = Inl e"
  by (simp add: ebind_def)

lemma bc_nth_in_range: "i < length v \<Longrightarrow> bc_nth v i = v ! i"
  by (auto simp: bc_nth_def)

lemma bc_ent_in_range: "i < nr A \<Longrightarrow> j < nc A \<Longrightarrow> bc_ent A i j = ent A i j"
  by (auto simp: bc_ent_def)

lemma length_np_sum0 [simp]: "length (np_sum0 A) = nc A"
  by (simp add: np_sum0_def)

lemma length_np_sum1 [simp]: "length (np_sum1 A) = nr A"
  by (simp add: np_sum1_def)

lemma nth_np_sum0: "j < nc A \<Longrightarrow> np_sum0 A ! j = (\<Sum>i<nr A. ent A i j)"
  by (simp add: np_sum0_def)

lemma nth_np_sum1: "i < nr A \<Longrightarrow> np_sum1 A ! i = (\<Sum>j<nc A. ent A i j)"
  by (simp add: np_sum1_def)

lemma np_add_v_same:
  "length u = length v \<Longrightarrow> np_add_v u v = Inr (map (\<lambda>i. u ! i + v ! i) [0..<length u])"
  by (simp add: np_add_v_def bc_ok_def bc_len_def bc_nth_in_range)

lemma np_sub_v_same:
  "length u = length v \<Longrightarrow> np_sub_v u v = Inr (map (\<lambda>i. u ! i - v ! i) [0..<length u])"
  by (simp add: np_sub_v_def bc_ok_def bc_len_def bc_nth_in_range)

lemma np_add_same:
  "nr A = nr B \<Longrightarrow> nc A = nc B \<Longrightarrow>
   np_add A B = Inr (Mat (nr A) (nc A) (\<lambda>i j. bc_ent A i j + bc_ent B i j))"
  by (simp add: np_add_def bc_ok_def bc_len_def)

lemma np_sub_same:
  "nr A = nr B \<Longrightarrow> nc A = nc B \<Longrightarrow>
   np_sub A B = Inr (Mat (nr A) (nc A) (\<lambda>i j. bc_ent A i j - bc_ent B i j))"
  by (simp add: np_sub_def bc_ok_def bc_len_def)

section \<open>The unconstrained system\<close>

lemma csr_system_square:
  assumes "nr A = N" "nc A = N"
  shows "csr_SpringRank_system A =
    Inr (set_ent (set_ent (resize
           (Mat N N (\<lambda>i j. (if i = j \<and> i < N then (np_sum1 A ! i + np_sum0 A ! i) else 0)
                              - ent A i j - ent A j i))
           (N + 1) (N + 1)) N 0 1) 0 N 1,
         map (\<lambda>i. np_sum1 A ! i - np_sum0 A ! i) [0..<N] @ [0])"
  using assms
  by (auto simp: csr_SpringRank_system_def Let_def np_add_v_same np_sub_v_same sp_sub_def
      spdiags_def transpose_m_def cong: if_cong)

text \<open>
  C6. For a square \<open>N\<close> by \<open>N\<close> matrix \<open>A\<close>, \<open>csr_SpringRank\<close> (the branch \<open>alpha = 0\<close>
  of \<open>SpringRank\<close>) hands \<open>bicgstab\<close> an operator of shape \<open>N + 1\<close> by \<open>N + 1\<close> whose
  top-left block is \<open>diag(k_in + k_out) - A - A\<^sup>T\<close>, whose last row and column hold 1 at
  the positions \<open>(N, 0)\<close> and \<open>(0, N)\<close> and 0 elsewhere, with the right-hand side
  \<open>k_out - k_in\<close> followed by 0; the ranks are the solution without its last entry, that
  is, the first \<open>N\<close> entries of a solution of length \<open>N + 1\<close>.
\<close>

theorem csr_SpringRank_augmented_system:
  assumes "nr A = N" and "nc A = N"
  shows "\<exists>operator rhs.
     csr_SpringRank_system A = Inr (operator, rhs)
     \<and> nr operator = N + 1 \<and> nc operator = N + 1
     \<and> (\<forall>i<N. \<forall>j<N. ent operator i j =
           (if i = j then (\<Sum>k<N. ent A k i) + (\<Sum>k<N. ent A i k) else 0) - ent A i j - ent A j i)
     \<and> (\<forall>i\<le>N. \<forall>j\<le>N. i = N \<or> j = N \<longrightarrow>
           ent operator i j = (if (i = N \<and> j = 0) \<or> (i = 0 \<and> j = N) then 1 else 0))
     \<and> rhs = map (\<lambda>i. (\<Sum>k<N. ent A i k) - (\<Sum>k<N. ent A k i)) [0..<N] @ [0]
     \<and> csr_SpringRank la A = ebind (bicgstab la operator rhs) (\<lambda>out. Inr (butlast (fst out)))
     \<and> (\<forall>x info. bicgstab la operator rhs = Inr (x, info) \<longrightarrow> length x = N + 1 \<longrightarrow>
           csr_SpringRank la A = Inr (take N x))"
  using assms
  by (auto simp: csr_system_square csr_SpringRank_def set_ent_def resize_def nth_np_sum0
      nth_np_sum1 butlast_conv_take)

text \<open>
  On the network with the single edge from node 0 to node 1 the right-hand side is
  \<open>[1, -1, 0]\<close>, and the ranks are its first two entries.
\<close>

theorem csr_SpringRank_augmented_system_witness:
  "nr one_edge = 2 \<and> nc one_edge = 2 \<and> csr_SpringRank la_converged one_edge = Inr [1, - 1]"
  using csr_SpringRank_augmented_system [of one_edge 2 la_converged]
  by (auto simp: one_edge_def la_converged_def pad_rhs_def eval_nat_numeral)

section \<open>The regularized system\<close>

lemma SpringRank_system_square:
  assumes "nr A = N" "nc A = N"
  shows "\<exists>operator. SpringRank_system A alpha =
      Inr (operator, map (\<lambda>i. alpha + (np_sum1 A ! i - np_sum0 A ! i)) [0..<N])
    \<and> nr operator = N \<and> nc operator = N
    \<and> (\<forall>i<N. \<forall>j<N. ent operator i j =
          (alpha * (if i = j then 1 else 0) + (if i = j then np_sum1 A ! i + np_sum0 A ! i else 0))
          - (ent A i j + ent A j i))"
  using assms
  by (auto simp: SpringRank_system_def Let_def np_add_same np_sub_same np_add_v_same
      np_sub_v_same transpose_m_def scalar_add_v_def scalar_mul_def eye_def np_diag_def
      bc_ent_in_range)

text \<open>
  C1, as stated, fails: the right-hand side of the regularized solve is not
  \<open>k_out - k_in\<close>. Line 76 of the source adds \<open>alpha\<close> to every entry. On the network
  with the single edge from node 0 to node 1 and \<open>alpha = 1\<close> the right-hand side is
  \<open>[2, 0]\<close>, while \<open>k_out - k_in = [1, -1]\<close>.
\<close>

theorem SpringRank_regularized_rhs_counterexample:
  "map_sum id snd (SpringRank_system one_edge 1) = Inr [2, 0]
   \<and> np_sub_v (np_sum1 one_edge) (np_sum0 one_edge) = Inr [1, - 1]"
  by (simp add: SpringRank_system_def Let_def np_add_same np_sub_same np_add_v_same
      np_sub_v_same transpose_m_def scalar_add_v_def scalar_mul_def eye_def np_diag_def
      one_edge_def np_sum0_def np_sum1_def eval_nat_numeral)

text \<open>
  C1, amended. For a square \<open>N\<close> by \<open>N\<close> matrix \<open>A\<close> and \<open>alpha \<noteq> 0\<close>, \<open>SpringRank\<close>
  hands \<open>bicgstab\<close> the operator \<open>alpha * I + L\<close> with
  \<open>L = diag(k_in + k_out) - A - A\<^sup>T\<close> and the right-hand side whose entry \<open>i\<close> is
  \<open>alpha + (k_out i - k_in i)\<close>, and returns the iterate.
\<close>

theorem SpringRank_regularized_system:
  assumes "nr A = N" and "nc A = N" and "alpha \<noteq> 0"
  shows "\<exists>operator B.
     SpringRank_system A alpha = Inr (operator, B)
     \<and> nr operator = N \<and> nc operator = N
     \<and> (\<forall>i<N. \<forall>j<N. ent operator i j =
           (if i = j then alpha + ((\<Sum>k<N. ent A k i) + (\<Sum>k<N. ent A i k)) else 0)
           - ent A i j - ent A j i)
     \<and> B = map (\<lambda>i. alpha + ((\<Sum>k<N. ent A i k) - (\<Sum>k<N. ent A k i))) [0..<N]
     \<and> SpringRank la A alpha = ebind (bicgstab la operator B) (\<lambda>out. Inr (fst out))"
proof -
  obtain operator where sys: "SpringRank_system A alpha =
      Inr (operator, map (\<lambda>i. alpha + (np_sum1 A ! i - np_sum0 A ! i)) [0..<N])"
    and shape: "nr operator = N" "nc operator = N"
    and entries: "\<forall>i<N. \<forall>j<N. ent operator i j =
          (alpha * (if i = j then 1 else 0) + (if i = j then np_sum1 A ! i + np_sum0 A ! i else 0))
          - (ent A i j + ent A j i)"
    using SpringRank_system_square [OF assms(1,2)] by blast
  have rhs: "map (\<lambda>i. alpha + (np_sum1 A ! i - np_sum0 A ! i)) [0..<N]
      = map (\<lambda>i. alpha + ((\<Sum>k<N. ent A i k) - (\<Sum>k<N. ent A k i))) [0..<N]"
    using assms by (simp add: nth_np_sum0 nth_np_sum1)
  have ents: "\<forall>i<N. \<forall>j<N. ent operator i j =
           (if i = j then alpha + ((\<Sum>k<N. ent A k i) + (\<Sum>k<N. ent A i k)) else 0)
           - ent A i j - ent A j i"
    using entries assms by (simp add: nth_np_sum0 nth_np_sum1)
  show ?thesis
    using sys shape ents rhs assms(3) by (simp add: SpringRank_def)
qed

text \<open>
  On the network with the single edge from node 0 to node 1 and \<open>alpha = 1\<close>, the
  stand-in solver returns the right-hand side \<open>[2, 0]\<close>.
\<close>

theorem SpringRank_regularized_system_witness:
  "nr one_edge = 2 \<and> nc one_edge = 2 \<and> (1::real) \<noteq> 0
   \<and> SpringRank la_converged one_edge 1 = Inr [2, 0]"
  using SpringRank_regularized_system [of one_edge 2 1 la_converged]
  by (auto simp: one_edge_def la_converged_def pad_rhs_def eval_nat_numeral)

section \<open>The grouped system: dictionaries, loops and stacked blocks\<close>

lemma dict_set_append: "k \<notin> set (keys d) \<Longrightarrow> dict_set d k v = d @ [(k, v)]"
  by (induction d) (auto simp: keys_def)

lemma keys_append [simp]: "keys (d @ e) = keys d @ keys e"
  by (simp add: keys_def)

lemma keys_Cons [simp]: "keys (p # d) = fst p # keys d"
  by (simp add: keys_def)

lemma keys_Nil [simp]: "keys [] = []"
  by (simp add: keys_def)

lemma make_num_groups_eq:
  "distinct (keys acc @ keys G) \<Longrightarrow>
   make_num_groups G acc = acc @ map (\<lambda>p. (fst p, nc (snd p))) G"
proof (induction G arbitrary: acc)
  case Nil
  then show ?case by simp
next
  case (Cons p G)
  obtain t G_i where p: "p = (t, G_i)" by (cases p)
  have "t \<notin> set (keys acc)" using Cons.prems p by auto
  then have step: "dict_set acc t (nc G_i) = acc @ [(t, nc G_i)]"
    by (rule dict_set_append)
  have "distinct (keys (acc @ [(t, nc G_i)]) @ keys G)"
    using Cons.prems p by auto
  from Cons.IH [OF this] show ?case
    using p step by simp
qed

lemma make_G_sparse_eq:
  "distinct (keys acc @ keys G) \<Longrightarrow> make_G_sparse G acc = acc @ G"
proof (induction G arbitrary: acc)
  case Nil
  then show ?case by simp
next
  case (Cons p G)
  obtain t G_i where p: "p = (t, G_i)" by (cases p)
  have "t \<notin> set (keys acc)" using Cons.prems p by auto
  then have step: "dict_set acc t G_i = acc @ [(t, G_i)]"
    by (rule dict_set_append)
  have "distinct (keys (acc @ [(t, G_i)]) @ keys G)"
    using Cons.prems p by auto
  from Cons.IH [OF this] show ?case
    using p step by simp
qed

lemma make_blocks_eq:
  "distinct (keys acc @ keys G) \<Longrightarrow> \<forall>p\<in>set G. nr (snd p) = nc L \<Longrightarrow>
   make_blocks L G acc = Inr (acc @ map (\<lambda>p. (fst p, matmul L (snd p))) G)"
proof (induction G arbitrary: acc)
  case Nil
  then show ?case by simp
next
  case (Cons p G)
  obtain t G_i where p: "p = (t, G_i)" by (cases p)
  have "t \<notin> set (keys acc)" using Cons.prems p by auto
  then have step: "dict_set acc t (matmul L G_i) = acc @ [(t, matmul L G_i)]"
    by (rule dict_set_append)
  have d: "distinct (keys (acc @ [(t, matmul L G_i)]) @ keys G)"
    using Cons.prems p by auto
  have r: "\<forall>p\<in>set G. nr (snd p) = nc L" using Cons.prems by simp
  have "nr G_i = nc L" using Cons.prems p by simp
  then show ?case
    using Cons.IH [OF d r] p step by (simp add: matmul_checked_def)
qed

lemma first_row_eq:
  "\<forall>p\<in>set G. map_of blocks (fst p) = Some (f p) \<Longrightarrow>
   first_row blocks G K = Inr (foldl hstack K (map f G))"
proof (induction G arbitrary: K)
  case Nil
  then show ?case by simp
next
  case (Cons p G)
  obtain t G_i where p: "p = (t, G_i)" by (cases p)
  have "dict_get blocks t = Inr (f p)" using Cons.prems p by (simp add: dict_get_def)
  then show ?case using Cons p by simp
qed

lemma row_blocks_eq:
  "row_blocks GT t lam n bs cr =
   foldl hstack cr
     (map (\<lambda>p. if fst p = t then madd (matmul GT (snd p)) (scalar_mul lam (eye n))
                else matmul GT (snd p)) bs)"
  by (induction bs arbitrary: cr) auto


lemma group_rows_eq:
  assumes "\<forall>q\<in>set rc. fst q \<noteq> ''individual'' \<longrightarrow> fst q \<in> set (keys G)"
  shows "group_rows L G G (map (\<lambda>p. (fst p, nc (snd p))) G) blocks k_diff rc (K, d_hat) =
     Inr (foldl vstack K (map (group_row L G blocks) (filter (\<lambda>q. fst q \<noteq> ''individual'') rc)),
          d_hat @ concat (map (group_rhs G k_diff) (filter (\<lambda>q. fst q \<noteq> ''individual'') rc)))"
  using assms
proof (induction rc arbitrary: K d_hat)
  case Nil
  then show ?case by simp
next
  case (Cons q rc)
  obtain t lam where q: "q = (t, lam)" by (cases q)
  show ?case
  proof (cases "t = ''individual''")
    case True
    then show ?thesis using Cons q by simp
  next
    case False
    then have "t \<in> set (keys G)" using Cons.prems q by auto
    then have "map_of G t \<noteq> None"
      by (simp add: keys_def map_of_eq_None_iff)
    then obtain G_t where G_t: "map_of G t = Some G_t"
      by blast
    have ng: "map_of (map (\<lambda>p. (fst p, nc (snd p))) G) t = Some (nc G_t)"
      using G_t by (induction G) (auto split: if_splits)
    have rest: "\<forall>q\<in>set rc. fst q \<noteq> ''individual'' \<longrightarrow> fst q \<in> set (keys G)"
      using Cons.prems by simp
    show ?thesis
      using False q G_t ng Cons.IH [OF rest]
      by (simp add: dict_get_def group_row_def group_rhs_def the_group_def Let_def)
  qed
qed

lemma nr_hstack [simp]: "nr (hstack A B) = nr A"
  by (simp add: hstack_def)

lemma nc_hstack [simp]: "nc (hstack A B) = nc A + nc B"
  by (simp add: hstack_def)

lemma ent_hstack: "ent (hstack A B) i j = (if j < nc A then ent A i j else ent B i (j - nc A))"
  by (simp add: hstack_def)

lemma nr_vstack [simp]: "nr (vstack A B) = nr A + nr B"
  by (simp add: vstack_def)

lemma nc_vstack [simp]: "nc (vstack A B) = nc A"
  by (simp add: vstack_def)

lemma ent_vstack: "ent (vstack A B) i j = (if i < nr A then ent A i j else ent B (i - nr A) j)"
  by (simp add: vstack_def)

lemma nr_foldl_hstack [simp]: "nr (foldl hstack K Bs) = nr K"
  by (induction Bs arbitrary: K) (simp_all add: ent_hstack)

lemma nc_foldl_hstack [simp]: "nc (foldl hstack K Bs) = nc K + sum_list (map nc Bs)"
  by (induction Bs arbitrary: K) (simp_all add: ent_hstack)

lemma ent_foldl_hstack_left:
  "j < nc K \<Longrightarrow> ent (foldl hstack K Bs) i j = ent K i j"
  by (induction Bs arbitrary: K) (simp_all add: ent_hstack)

lemma ent_foldl_hstack_block:
  "s < length Bs \<Longrightarrow> b < nc (Bs ! s) \<Longrightarrow>
   ent (foldl hstack K Bs) i (nc K + sum_list (map nc (take s Bs)) + b) = ent (Bs ! s) i b"
proof (induction Bs arbitrary: K s)
  case Nil
  then show ?case by simp
next
  case (Cons B Bs)
  show ?case
  proof (cases s)
    case 0
    then show ?thesis using Cons.prems
      by (simp add: ent_foldl_hstack_left ent_hstack)
  next
    case (Suc s')
    have "ent (foldl hstack (hstack K B) Bs) i
            (nc (hstack K B) + sum_list (map nc (take s' Bs)) + b) = ent (Bs ! s') i b"
      using Cons.IH [of s' "hstack K B"] Cons.prems Suc by simp
    then show ?thesis using Suc by (simp add: add.assoc)
  qed
qed

lemma nc_foldl_vstack [simp]: "nc (foldl vstack K Rs) = nc K"
  by (induction Rs arbitrary: K) (simp_all add: ent_vstack)

lemma nr_foldl_vstack [simp]: "nr (foldl vstack K Rs) = nr K + sum_list (map nr Rs)"
  by (induction Rs arbitrary: K) (simp_all add: ent_vstack)

lemma ent_foldl_vstack_top:
  "i < nr K \<Longrightarrow> ent (foldl vstack K Rs) i j = ent K i j"
  by (induction Rs arbitrary: K) (simp_all add: ent_vstack)

lemma ent_foldl_vstack_block:
  "s < length Rs \<Longrightarrow> a < nr (Rs ! s) \<Longrightarrow>
   ent (foldl vstack K Rs) (nr K + sum_list (map nr (take s Rs)) + a) j = ent (Rs ! s) a j"
proof (induction Rs arbitrary: K s)
  case Nil
  then show ?case by simp
next
  case (Cons R Rs)
  show ?case
  proof (cases s)
    case 0
    then show ?thesis using Cons.prems
      by (simp add: ent_foldl_vstack_top ent_vstack)
  next
    case (Suc s')
    have "ent (foldl vstack (vstack K R) Rs)
            (nr (vstack K R) + sum_list (map nr (take s' Rs)) + a) j = ent (Rs ! s') a j"
      using Cons.IH [of s' "vstack K R"] Cons.prems Suc by simp
    then show ?thesis using Suc by (simp add: add.assoc)
  qed
qed

lemma block_index:
  "(i::nat) < N + sum_list ms \<Longrightarrow>
   i < N \<or> (\<exists>s<length ms. \<exists>b<ms ! s. i = N + sum_list (take s ms) + b)"
proof (induction ms arbitrary: N)
  case Nil
  then show ?case by simp
next
  case (Cons m ms)
  show ?case
  proof (cases "i < N + m")
    case True
    show ?thesis
    proof (cases "i < N")
      case True
      then show ?thesis by simp
    next
      case False
      then have "0 < length (m # ms) \<and> i - N < (m # ms) ! 0 \<and> i = N + sum_list (take 0 (m # ms)) + (i - N)"
        using \<open>i < N + m\<close> by simp
      then show ?thesis by blast
    qed
  next
    case False
    have "i < (N + m) + sum_list ms" using Cons.prems by simp
    from Cons.IH [OF this] False obtain s b where
      "s < length ms" "b < ms ! s" "i = (N + m) + sum_list (take s ms) + b"
      by blast
    then have "Suc s < length (m # ms) \<and> b < (m # ms) ! Suc s
        \<and> i = N + sum_list (take (Suc s) (m # ms)) + b"
      by simp
    then show ?thesis by blast
  qed
qed

section \<open>The grouped system: the assembled operator\<close>

lemma construct_laplacian_square:
  assumes "nr A = N" "nc A = N"
  shows "\<exists>L. construct_laplacian A = Inr L \<and> nr L = N \<and> nc L = N
     \<and> (\<forall>i<N. \<forall>j<N. ent L i j = laplacian A i j)"
  using assms
  by (auto simp: construct_laplacian_def Let_def np_add_same np_sub_same np_add_v_same
      transpose_m_def np_diag_def bc_ent_in_range laplacian_def nth_np_sum0 nth_np_sum1)

lemma map_of_mapped_dict:
  "distinct (keys G) \<Longrightarrow> p \<in> set G \<Longrightarrow>
   map_of (map (\<lambda>p. (fst p, f (snd p))) G) (fst p) = Some (f (snd p))"
  by (induction G) (auto simp: keys_def rev_image_eqI)

lemma map_of_dict_entry:
  "distinct (keys G) \<Longrightarrow> p \<in> set G \<Longrightarrow> map_of G (fst p) = Some (snd p)"
  by (simp add: keys_def)

lemma groups_system_eq:
  assumes sq: "nr A = N" "nc A = N"
    and L: "construct_laplacian A = Inr L" "nr L = N" "nc L = N"
    and rows: "\<forall>p\<in>set G. nr (snd p) = N"
    and dist: "distinct (keys G)"
    and cover: "\<forall>q\<in>set reg_coeff. fst q \<noteq> ''individual'' \<longrightarrow> fst q \<in> set (keys G)"
    and ind: "map_of reg_coeff ''individual'' = Some lambda_0"
  shows "SpringRank_groups_system A G reg_coeff =
     Inr (foldl vstack
            (foldl hstack (madd L (scalar_mul lambda_0 (eye N))) (map (\<lambda>p. matmul L (snd p)) G))
            (map (group_row L G (map (\<lambda>p. (fst p, matmul L (snd p))) G))
               (filter (\<lambda>q. fst q \<noteq> ''individual'') reg_coeff)),
          map (\<lambda>i. np_sum1 A ! i - np_sum0 A ! i) [0..<N]
            @ concat (map (group_rhs G (map (\<lambda>i. np_sum1 A ! i - np_sum0 A ! i) [0..<N]))
                (filter (\<lambda>q. fst q \<noteq> ''individual'') reg_coeff)),
          map (\<lambda>p. (fst p, nc (snd p))) G)"
proof -
  have ng: "make_num_groups G [] = map (\<lambda>p. (fst p, nc (snd p))) G"
    using make_num_groups_eq [of "[]" G] dist by simp
  have gs: "make_G_sparse G [] = G"
    using make_G_sparse_eq [of "[]" G] dist by simp
  have bl: "make_blocks L G [] = Inr (map (\<lambda>p. (fst p, matmul L (snd p))) G)"
    using make_blocks_eq [of "[]" G L] dist rows L by simp
  have fr: "first_row (map (\<lambda>p. (fst p, matmul L (snd p))) G) G K0 =
      Inr (foldl hstack K0 (map (\<lambda>p. matmul L (snd p)) G))" for K0
    by (rule first_row_eq) (simp add: map_of_mapped_dict [OF dist])
  have k0: "sp_add L (scalar_mul lambda_0 (eye N)) = Inr (madd L (scalar_mul lambda_0 (eye N)))"
    using L by (simp add: sp_add_def scalar_mul_def eye_def)
  have kd: "np_sub_v (np_sum1 A) (np_sum0 A) = Inr (map (\<lambda>i. np_sum1 A ! i - np_sum0 A ! i) [0..<N])"
    using sq by (simp add: np_sub_v_same)
  show ?thesis
    using sq L(1) ind
    by (simp add: SpringRank_groups_system_def Let_def ng gs bl fr k0 kd dict_get_def
        group_rows_eq [OF cover])
qed


lemma nr_matmul [simp]: "nr (matmul A B) = nr A"
  by (simp add: matmul_def)

lemma nc_matmul [simp]: "nc (matmul A B) = nc B"
  by (simp add: matmul_def)

lemma ent_matmul: "ent (matmul A B) i j = (\<Sum>k<nc A. ent A i k * ent B k j)"
  by (simp add: matmul_def)

lemma nr_madd [simp]: "nr (madd A B) = nr A"
  by (simp add: madd_def)

lemma nc_madd [simp]: "nc (madd A B) = nc A"
  by (simp add: madd_def)

lemma ent_madd: "ent (madd A B) i j = ent A i j + ent B i j"
  by (simp add: madd_def)

lemma nr_transpose_m [simp]: "nr (transpose_m A) = nc A"
  by (simp add: transpose_m_def)

lemma nc_transpose_m [simp]: "nc (transpose_m A) = nr A"
  by (simp add: transpose_m_def)

lemma ent_transpose_m [simp]: "ent (transpose_m A) i j = ent A j i"
  by (simp add: transpose_m_def)

lemma ent_scalar_eye: "ent (scalar_mul c (eye n)) i j = (if i = j then c else 0)"
  by (simp add: scalar_mul_def eye_def)

lemma nc_row_block [simp]: "nc (row_block GT t lam n p) = nc (snd p)"
  by (simp add: row_block_def)

lemma group_row_eq:
  "group_row L G blocks q =
   foldl hstack (matmul (transpose_m (the_group G (fst q))) L)
     (map (row_block (transpose_m (the_group G (fst q))) (fst q) (snd q)
            (nc (the_group G (fst q)))) blocks)"
  unfolding group_row_def row_blocks_eq row_block_def ..

lemma nr_group_row [simp]: "nr (group_row L G blocks q) = nc (the_group G (fst q))"
  by (simp add: group_row_eq)

lemma nc_group_row:
  "nc (group_row L G (map (\<lambda>p. (fst p, matmul L (snd p))) G) q) =
   nc L + sum_list (map (\<lambda>p. nc (snd p)) G)"
  by (simp add: group_row_eq comp_def)

lemma ent_group_row_left:
  "j < nc L \<Longrightarrow> ent (group_row L G blocks q) a j =
     (\<Sum>k<nr (the_group G (fst q)). ent (the_group G (fst q)) k a * ent L k j)"
  by (simp add: group_row_eq ent_foldl_hstack_left ent_matmul)

lemma ent_group_row_block:
  assumes "s < length G" "b < nc (snd (G ! s))"
  shows "ent (group_row L G (map (\<lambda>p. (fst p, matmul L (snd p))) G) q) a
           (nc L + sum_list (map (\<lambda>p. nc (snd p)) (take s G)) + b) =
         (\<Sum>k<nr (the_group G (fst q)). ent (the_group G (fst q)) k a
              * (\<Sum>l<nc L. ent L k l * ent (snd (G ! s)) l b))
         + (if fst (G ! s) = fst q \<and> a = b then snd q else 0)"
proof -
  let ?GT = "transpose_m (the_group G (fst q))"
  let ?bs = "map (row_block ?GT (fst q) (snd q) (nc (the_group G (fst q))))
               (map (\<lambda>p. (fst p, matmul L (snd p))) G)"
  have len: "s < length ?bs" using assms by simp
  have b: "b < nc (?bs ! s)" using assms by simp
  have idx: "nc L + sum_list (map (\<lambda>p. nc (snd p)) (take s G)) + b
      = nc (matmul ?GT L) + sum_list (map nc (take s ?bs)) + b"
    by (simp add: take_map comp_def)
  have "ent (group_row L G (map (\<lambda>p. (fst p, matmul L (snd p))) G) q) a
           (nc L + sum_list (map (\<lambda>p. nc (snd p)) (take s G)) + b) = ent (?bs ! s) a b"
    unfolding group_row_eq idx by (rule ent_foldl_hstack_block [OF len b])
  also have "\<dots> = (\<Sum>k<nr (the_group G (fst q)). ent (the_group G (fst q)) k a
              * (\<Sum>l<nc L. ent L k l * ent (snd (G ! s)) l b))
         + (if fst (G ! s) = fst q \<and> a = b then snd q else 0)"
    using assms by (simp add: row_block_def ent_madd ent_matmul ent_scalar_eye)
  finally show ?thesis .
qed

lemma laplacian_sym: "laplacian A i j = laplacian A j i"
  by (simp add: laplacian_def)

lemma quadratic_form_sym:
  fixes u v :: "nat \<Rightarrow> real" and w :: "nat \<Rightarrow> nat \<Rightarrow> real"
  assumes "\<And>k l. w k l = w l k"
  shows "(\<Sum>k<N. u k * (\<Sum>l<N. w k l * v l)) = (\<Sum>k<N. v k * (\<Sum>l<N. w k l * u l))"
proof -
  have "(\<Sum>k<N. u k * (\<Sum>l<N. w k l * v l)) = (\<Sum>k<N. \<Sum>l<N. u k * (w k l * v l))"
    by (simp add: sum_distrib_left)
  also have "\<dots> = (\<Sum>l<N. \<Sum>k<N. u k * (w k l * v l))"
    by (rule sum.swap)
  also have "\<dots> = (\<Sum>l<N. \<Sum>k<N. v l * (w l k * u k))"
    by (intro sum.cong refl) (simp add: assms [of _ _] mult.commute mult.left_commute)
  also have "\<dots> = (\<Sum>k<N. v k * (\<Sum>l<N. w k l * u l))"
    by (simp add: sum_distrib_left)
  finally show ?thesis .
qed

lemma aligned_items:
  assumes distG: "distinct (keys G)" and distR: "distinct (keys reg_coeff)"
    and al: "map fst rc = keys G" and sub: "set rc \<subseteq> set reg_coeff" and t: "t < length G"
  shows "fst (rc ! t) = fst (G ! t)"
    and "the_group G (fst (rc ! t)) = snd (G ! t)"
    and "snd (rc ! t) = coefficient reg_coeff (fst (G ! t))"
proof -
  have len: "length rc = length G"
    using al by (metis keys_def length_map)
  show fst_eq: "fst (rc ! t) = fst (G ! t)"
    using al len t by (metis keys_def nth_map)
  have "G ! t \<in> set G" using t by simp
  then have "map_of G (fst (G ! t)) = Some (snd (G ! t))"
    using distG by (simp add: keys_def)
  then show "the_group G (fst (rc ! t)) = snd (G ! t)"
    by (simp add: the_group_def fst_eq)
  have "rc ! t \<in> set reg_coeff" using sub len t by auto
  then have "map_of reg_coeff (fst (rc ! t)) = Some (snd (rc ! t))"
    using distR by (simp add: keys_def)
  then show "snd (rc ! t) = coefficient reg_coeff (fst (G ! t))"
    by (simp add: coefficient_def fst_eq)
qed


lemma groups_operator_blocks:
  assumes sq: "nr A = N" "nc A = N"
    and rows: "\<forall>p\<in>set G. nr (snd p) = N"
    and distG: "distinct (keys G)"
    and distR: "distinct (keys reg_coeff)"
    and ind: "''individual'' \<in> set (keys reg_coeff)"
    and al: "filter (\<lambda>k. k \<noteq> ''individual'') (keys reg_coeff) = keys G"
  shows "\<exists>K d_hat.
    SpringRank_groups_system A G reg_coeff = Inr (K, d_hat, map (\<lambda>p. (fst p, nc (snd p))) G)
    \<and> nr K = N + sum_list (map (\<lambda>p. nc (snd p)) G)
    \<and> nc K = N + sum_list (map (\<lambda>p. nc (snd p)) G)
    \<and> (\<forall>i<N. \<forall>j<N. ent K i j =
          laplacian A i j + (if i = j then coefficient reg_coeff ''individual'' else 0))
    \<and> (\<forall>s<length G. \<forall>i<N. \<forall>b<nc (snd (G ! s)). ent K i (offset G N s + b) =
          (\<Sum>k<N. laplacian A i k * ent (snd (G ! s)) k b))
    \<and> (\<forall>t<length G. \<forall>a<nc (snd (G ! t)). \<forall>j<N. ent K (offset G N t + a) j =
          (\<Sum>k<N. ent (snd (G ! t)) k a * laplacian A k j))
    \<and> (\<forall>t<length G. \<forall>s<length G. \<forall>a<nc (snd (G ! t)). \<forall>b<nc (snd (G ! s)).
          ent K (offset G N t + a) (offset G N s + b) =
          (\<Sum>k<N. ent (snd (G ! t)) k a * (\<Sum>l<N. laplacian A k l * ent (snd (G ! s)) l b))
          + (if t = s \<and> a = b then coefficient reg_coeff (fst (G ! t)) else 0))"
proof -
  obtain L where L: "construct_laplacian A = Inr L" "nr L = N" "nc L = N"
    and Lent: "\<And>i j. i < N \<Longrightarrow> j < N \<Longrightarrow> ent L i j = laplacian A i j"
    using construct_laplacian_square [OF sq] by blast
  define rc where "rc = filter (\<lambda>q. fst q \<noteq> ''individual'') reg_coeff"
  define lambda_0 where "lambda_0 = coefficient reg_coeff ''individual''"
  define blocks where "blocks = map (\<lambda>p. (fst p, matmul L (snd p))) G"
  define K0 where "K0 = madd L (scalar_mul lambda_0 (eye N))"
  define Bs where "Bs = map (\<lambda>p. matmul L (snd p)) G"
  define Krow where "Krow = foldl hstack K0 Bs"
  define Rs where "Rs = map (group_row L G blocks) rc"
  define K where "K = foldl vstack Krow Rs"
  define ms where "ms = map (\<lambda>p. nc (snd p)) G"
  have al': "map fst rc = keys G"
    using al by (simp add: rc_def keys_def filter_map comp_def)
  have sub: "set rc \<subseteq> set reg_coeff" by (auto simp: rc_def)
  have len: "length rc = length G"
    using al' by (metis keys_def length_map)
  have cover: "\<forall>q\<in>set reg_coeff. fst q \<noteq> ''individual'' \<longrightarrow> fst q \<in> set (keys G)"
  proof (intro ballI impI)
    fix q assume "q \<in> set reg_coeff" "fst q \<noteq> ''individual''"
    then have "fst q \<in> set (filter (\<lambda>k. k \<noteq> ''individual'') (keys reg_coeff))"
      by (auto simp: keys_def)
    then show "fst q \<in> set (keys G)" by (simp add: al)
  qed
  have "map_of reg_coeff ''individual'' \<noteq> None"
    using ind by (simp add: keys_def map_of_eq_None_iff)
  then have ind': "map_of reg_coeff ''individual'' = Some lambda_0"
    by (auto simp: lambda_0_def coefficient_def)
  have sys: "SpringRank_groups_system A G reg_coeff =
      Inr (K, map (\<lambda>i. np_sum1 A ! i - np_sum0 A ! i) [0..<N]
            @ concat (map (group_rhs G (map (\<lambda>i. np_sum1 A ! i - np_sum0 A ! i) [0..<N])) rc),
          map (\<lambda>p. (fst p, nc (snd p))) G)"
    unfolding K_def Rs_def Krow_def Bs_def K0_def blocks_def rc_def
    by (rule groups_system_eq [OF sq L rows distG cover ind'])
  have item: "fst (rc ! t) = fst (G ! t)" "the_group G (fst (rc ! t)) = snd (G ! t)"
      "snd (rc ! t) = coefficient reg_coeff (fst (G ! t))" if "t < length G" for t
    using aligned_items [OF distG distR al' sub that] by simp_all
  have item2: "the_group G (fst (G ! t)) = snd (G ! t)" if "t < length G" for t
    using item(1,2) [OF that] by simp
  have ncBs: "map nc Bs = ms" by (simp add: Bs_def ms_def comp_def)
  have nrRs: "map nr Rs = ms"
  proof (rule nth_equalityI)
    show "length (map nr Rs) = length ms" by (simp add: Rs_def ms_def len)
  next
    fix t assume "t < length (map nr Rs)"
    then have t: "t < length G" by (simp add: Rs_def len)
    then show "map nr Rs ! t = ms ! t"
      by (simp add: Rs_def ms_def len item item2)
  qed
  have nrK0: "nr K0 = N" and ncK0: "nc K0 = N" using L by (simp_all add: K0_def)
  have nrKrow: "nr Krow = N" by (simp add: Krow_def nrK0)
  have ncKrow: "nc Krow = N + sum_list ms" by (simp add: Krow_def ncK0 ncBs)
  have nrK: "nr K = N + sum_list ms" by (simp add: K_def nrKrow nrRs)
  have ncK: "nc K = N + sum_list ms" by (simp add: K_def ncKrow)
  have off: "offset G N s = N + sum_list (take s ms)" for s
    by (simp add: offset_def ms_def take_map)
  have top: "ent K i j = ent Krow i j" if "i < N" for i j
    unfolding K_def using that by (simp add: ent_foldl_vstack_top nrKrow)
  have a: "ent K i j = laplacian A i j + (if i = j then lambda_0 else 0)"
    if "i < N" "j < N" for i j
  proof -
    have "ent Krow i j = ent K0 i j"
      unfolding Krow_def using that by (simp add: ent_foldl_hstack_left ncK0)
    then show ?thesis
      using that by (simp add: top K0_def ent_madd ent_scalar_eye Lent)
  qed
  have b: "ent K i (offset G N s + b) = (\<Sum>k<N. laplacian A i k * ent (snd (G ! s)) k b)"
    if "s < length G" "i < N" "b < nc (snd (G ! s))" for s i b
  proof -
    have s: "s < length Bs" and bb: "b < nc (Bs ! s)" using that by (simp_all add: Bs_def)
    have "ent Krow i (nc K0 + sum_list (map nc (take s Bs)) + b) = ent (Bs ! s) i b"
      unfolding Krow_def by (rule ent_foldl_hstack_block [OF s bb])
    then have "ent Krow i (offset G N s + b) = ent (Bs ! s) i b"
      by (simp add: off ncK0 ncBs [symmetric] take_map)
    also have "\<dots> = (\<Sum>k<N. ent L i k * ent (snd (G ! s)) k b)"
      using that by (simp add: Bs_def ent_matmul L)
    also have "\<dots> = (\<Sum>k<N. laplacian A i k * ent (snd (G ! s)) k b)"
      using that by (intro sum.cong refl) (simp add: Lent)
    finally show ?thesis using that by (simp add: top)
  qed
  have row: "ent K (offset G N t + a) j = ent (group_row L G blocks (rc ! t)) a j"
    if "t < length G" "a < nc (snd (G ! t))" for t a j
  proof -
    have t: "t < length Rs" using that by (simp add: Rs_def len)
    have aa: "a < nr (Rs ! t)" using that by (simp add: Rs_def len item item2)
    have "ent K (nr Krow + sum_list (map nr (take t Rs)) + a) j = ent (Rs ! t) a j"
      unfolding K_def by (rule ent_foldl_vstack_block [OF t aa])
    then show ?thesis
      using that by (simp add: off nrKrow nrRs [symmetric] take_map Rs_def len)
  qed
  have c: "ent K (offset G N t + a) j = (\<Sum>k<N. ent (snd (G ! t)) k a * laplacian A k j)"
    if "t < length G" "a < nc (snd (G ! t))" "j < N" for t a j
  proof -
    have "G ! t \<in> set G" using that by simp
    then have nrG: "nr (snd (G ! t)) = N" using rows by blast
    have "ent K (offset G N t + a) j = (\<Sum>k<N. ent (snd (G ! t)) k a * ent L k j)"
      using that by (simp add: row ent_group_row_left L item item2 nrG)
    also have "\<dots> = (\<Sum>k<N. ent (snd (G ! t)) k a * laplacian A k j)"
      using that by (intro sum.cong refl) (simp add: Lent)
    finally show ?thesis .
  qed
  have d: "ent K (offset G N t + a) (offset G N s + b) =
          (\<Sum>k<N. ent (snd (G ! t)) k a * (\<Sum>l<N. laplacian A k l * ent (snd (G ! s)) l b))
          + (if t = s \<and> a = b then coefficient reg_coeff (fst (G ! t)) else 0)"
    if "t < length G" "s < length G" "a < nc (snd (G ! t))" "b < nc (snd (G ! s))" for t s a b
  proof -
    have "G ! t \<in> set G" using that by simp
    then have nrG: "nr (snd (G ! t)) = N" using rows by blast
    have "(map fst G ! s = map fst G ! t) = (s = t)"
      using distG that by (intro nth_eq_iff_index_eq) (simp_all add: keys_def)
    then have keyeq: "fst (G ! s) = fst (G ! t) \<longleftrightarrow> t = s"
      using that by auto
    have col: "offset G N s = nc L + sum_list (map (\<lambda>p. nc (snd p)) (take s G))"
      by (simp add: offset_def L)
    have "ent K (offset G N t + a) (offset G N s + b)
        = ent (group_row L G blocks (rc ! t)) a (offset G N s + b)"
      using that by (simp add: row)
    also have "\<dots> = ent (group_row L G blocks (rc ! t)) a
        (nc L + sum_list (map (\<lambda>p. nc (snd p)) (take s G)) + b)"
      by (simp only: col)
    also have "\<dots> = (\<Sum>k<N. ent (snd (G ! t)) k a * (\<Sum>l<N. ent L k l * ent (snd (G ! s)) l b))
          + (if t = s \<and> a = b then coefficient reg_coeff (fst (G ! t)) else 0)"
      unfolding blocks_def ent_group_row_block [OF that(2,4)]
      using that by (simp add: item item2 nrG L keyeq)
    also have "(\<Sum>k<N. ent (snd (G ! t)) k a * (\<Sum>l<N. ent L k l * ent (snd (G ! s)) l b))
        = (\<Sum>k<N. ent (snd (G ! t)) k a * (\<Sum>l<N. laplacian A k l * ent (snd (G ! s)) l b))"
      by (intro sum.cong refl arg_cong2 [where f = "(*)"]) (simp_all add: Lent)
    finally show ?thesis .
  qed
  show ?thesis
    using sys nrK ncK a b c d unfolding ms_def lambda_0_def by blast
qed

lemma groups_operator_block_structure:
  assumes sq: "nr A = N" "nc A = N"
    and rows: "\<forall>p\<in>set G. nr (snd p) = N"
    and distG: "distinct (keys G)"
    and distR: "distinct (keys reg_coeff)"
    and ind: "''individual'' \<in> set (keys reg_coeff)"
    and al: "filter (\<lambda>k. k \<noteq> ''individual'') (keys reg_coeff) = keys G"
  shows "\<exists>K d_hat.
    SpringRank_groups_system A G reg_coeff = Inr (K, d_hat, map (\<lambda>p. (fst p, nc (snd p))) G)
    \<and> nr K = N + sum_list (map (\<lambda>p. nc (snd p)) G)
    \<and> nc K = N + sum_list (map (\<lambda>p. nc (snd p)) G)
    \<and> block_structure A G reg_coeff N K"
  unfolding block_structure_def by (rule groups_operator_blocks [OF assms])

lemma block_position:
  assumes "i < N + sum_list (map (\<lambda>p. nc (snd p)) G)"
  shows "i < N \<or> (\<exists>s<length G. \<exists>b<nc (snd (G ! s)). i = offset G N s + b)"
proof -
  let ?ms = "map (\<lambda>p. nc (snd p)) G"
  from block_index [OF assms] show ?thesis
  proof
    assume "i < N" then show ?thesis by simp
  next
    assume "\<exists>s<length ?ms. \<exists>b<?ms ! s. i = N + sum_list (take s ?ms) + b"
    then obtain s b where "s < length ?ms" "b < ?ms ! s" "i = N + sum_list (take s ?ms) + b"
      by blast
    then have "s < length G \<and> b < nc (snd (G ! s)) \<and> i = offset G N s + b"
      by (simp add: offset_def take_map)
    then show ?thesis by blast
  qed
qed

lemma block_structure_symmetric:
  assumes nrK: "nr K = N + sum_list (map (\<lambda>p. nc (snd p)) G)"
    and ncK: "nc K = N + sum_list (map (\<lambda>p. nc (snd p)) G)"
    and bs: "block_structure A G reg_coeff N K"
  shows "symmetric_m K"
proof -
  have a: "ent K i j =
          laplacian A i j + (if i = j then coefficient reg_coeff ''individual'' else 0)"
    if "i < N" "j < N" for i j
    using bs that unfolding block_structure_def by simp
  have b: "ent K i (offset G N s + b) =
          (\<Sum>k<N. laplacian A i k * ent (snd (G ! s)) k b)"
    if "s < length G" "i < N" "b < nc (snd (G ! s))" for s i b
    using bs that unfolding block_structure_def by simp
  have c: "ent K (offset G N t + a) j =
          (\<Sum>k<N. ent (snd (G ! t)) k a * laplacian A k j)"
    if "t < length G" "a < nc (snd (G ! t))" "j < N" for t a j
    using bs that unfolding block_structure_def by simp
  have d: "ent K (offset G N t + a) (offset G N s + b) =
          (\<Sum>k<N. ent (snd (G ! t)) k a * (\<Sum>l<N. laplacian A k l * ent (snd (G ! s)) l b))
          + (if t = s \<and> a = b then coefficient reg_coeff (fst (G ! t)) else 0)"
    if "t < length G" "s < length G" "a < nc (snd (G ! t))" "b < nc (snd (G ! s))" for t s a b
    using bs that unfolding block_structure_def by simp
  have bc: "ent K i (offset G N s + b) = ent K (offset G N s + b) i"
    if "s < length G" "i < N" "b < nc (snd (G ! s))" for s i b
  proof -
    have "ent K i (offset G N s + b) = (\<Sum>k<N. laplacian A i k * ent (snd (G ! s)) k b)"
      using b that by blast
    also have "\<dots> = (\<Sum>k<N. ent (snd (G ! s)) k b * laplacian A k i)"
      by (intro sum.cong refl) (simp add: laplacian_sym [of A i] mult.commute)
    also have "\<dots> = ent K (offset G N s + b) i"
      using c that by simp
    finally show ?thesis .
  qed
  have dd: "ent K (offset G N t + a) (offset G N s + b) = ent K (offset G N s + b) (offset G N t + a)"
    if "t < length G" "s < length G" "a < nc (snd (G ! t))" "b < nc (snd (G ! s))" for t s a b
  proof -
    have q: "(\<Sum>k<N. ent (snd (G ! t)) k a * (\<Sum>l<N. laplacian A k l * ent (snd (G ! s)) l b))
        = (\<Sum>k<N. ent (snd (G ! s)) k b * (\<Sum>l<N. laplacian A k l * ent (snd (G ! t)) l a))"
      by (rule quadratic_form_sym) (rule laplacian_sym)
    have "ent K (offset G N t + a) (offset G N s + b) =
          (\<Sum>k<N. ent (snd (G ! t)) k a * (\<Sum>l<N. laplacian A k l * ent (snd (G ! s)) l b))
          + (if t = s \<and> a = b then coefficient reg_coeff (fst (G ! t)) else 0)"
      by (rule d [OF that])
    moreover have "ent K (offset G N s + b) (offset G N t + a) =
          (\<Sum>k<N. ent (snd (G ! s)) k b * (\<Sum>l<N. laplacian A k l * ent (snd (G ! t)) l a))
          + (if s = t \<and> b = a then coefficient reg_coeff (fst (G ! s)) else 0)"
      by (rule d [OF that(2,1,4,3)])
    ultimately show ?thesis using q by auto
  qed
  show ?thesis
    unfolding symmetric_m_def
  proof (intro conjI allI impI)
    show "nr K = nc K" by (simp add: nrK ncK)
  next
    fix i j assume "i < nr K" "j < nr K"
    then have i: "i < N \<or> (\<exists>s<length G. \<exists>b<nc (snd (G ! s)). i = offset G N s + b)"
      and j: "j < N \<or> (\<exists>s<length G. \<exists>b<nc (snd (G ! s)). j = offset G N s + b)"
      by (simp_all add: nrK block_position)
    from i j show "ent K i j = ent K j i"
    proof (elim disjE exE conjE)
      assume "i < N" "j < N"
      then show ?thesis by (simp add: a laplacian_sym [of A i j])
    next
      fix s b assume "i < N" "s < length G" "b < nc (snd (G ! s))" "j = offset G N s + b"
      then show ?thesis by (simp add: bc)
    next
      fix s b assume "j < N" "s < length G" "b < nc (snd (G ! s))" "i = offset G N s + b"
      then show ?thesis by (simp add: bc)
    next
      fix t a s b
      assume "t < length G" "a < nc (snd (G ! t))" "i = offset G N t + a"
        "s < length G" "b < nc (snd (G ! s))" "j = offset G N s + b"
      then show ?thesis by (simp add: dd)
    qed
  qed
qed

text \<open>
  C5, amended. For a square \<open>N\<close> by \<open>N\<close> matrix \<open>A\<close>, group matrices with \<open>N\<close> rows
  and \<open>reg_coeff\<close> whose keys other than \<open>individual\<close> are the keys of \<open>G\<close> in the
  iteration order of \<open>G\<close>, the assembled operator \<open>K\<close> is square of size
  \<open>N + \<Sum>\<^sub>t M\<^sub>t\<close>, symmetric, and has the block structure of the claim.
\<close>

theorem SpringRank_groups_operator_symmetric:
  assumes "nr A = N" and "nc A = N"
    and "\<forall>p\<in>set G. nr (snd p) = N"
    and "distinct (keys G)"
    and "distinct (keys reg_coeff)"
    and "''individual'' \<in> set (keys reg_coeff)"
    and "filter (\<lambda>k. k \<noteq> ''individual'') (keys reg_coeff) = keys G"
  shows "\<exists>K d_hat.
    SpringRank_groups_system A G reg_coeff = Inr (K, d_hat, map (\<lambda>p. (fst p, nc (snd p))) G)
    \<and> nr K = N + sum_list (map (\<lambda>p. nc (snd p)) G)
    \<and> nc K = N + sum_list (map (\<lambda>p. nc (snd p)) G)
    \<and> symmetric_m K
    \<and> block_structure A G reg_coeff N K"
proof -
  obtain K d_hat where
    sys: "SpringRank_groups_system A G reg_coeff = Inr (K, d_hat, map (\<lambda>p. (fst p, nc (snd p))) G)"
    and nrK: "nr K = N + sum_list (map (\<lambda>p. nc (snd p)) G)"
    and ncK: "nc K = N + sum_list (map (\<lambda>p. nc (snd p)) G)"
    and bs: "block_structure A G reg_coeff N K"
    using groups_operator_block_structure [OF assms] by blast
  have "symmetric_m K"
    by (rule block_structure_symmetric [OF nrK ncK bs])
  then show ?thesis
    using sys nrK ncK bs by blast
qed

text \<open>
  On the two-node network with the group types \<open>g\<close> (two groups) and \<open>h\<close> (one
  group) and coefficients in the order of \<open>G\<close>, the operator is 5 by 5 and symmetric.
\<close>

theorem SpringRank_groups_operator_symmetric_witness:
  "nr one_edge = 2 \<and> nc one_edge = 2 \<and> list_all (\<lambda>p. nr (snd p) = 2) two_types
   \<and> distinct (keys two_types) \<and> distinct (keys reg_aligned)
   \<and> filter (\<lambda>k. k \<noteq> ''individual'') (keys reg_aligned) = keys two_types
   \<and> (\<exists>K d_hat. SpringRank_groups_system one_edge two_types reg_aligned
          = Inr (K, d_hat, [(''g'', 2), (''h'', 1)])
        \<and> nr K = 5 \<and> nc K = 5 \<and> symmetric_m K
        \<and> block_structure one_edge two_types reg_aligned 2 K)"
proof -
  have h1: "nr one_edge = 2" and h2: "nc one_edge = 2"
    by (simp_all add: one_edge_def)
  have h3: "\<forall>p\<in>set two_types. nr (snd p) = 2"
    by (simp add: two_types_def G_g_def G_h_def)
  have h4: "distinct (keys two_types)"
    by (simp add: two_types_def)
  have h5: "distinct (keys reg_aligned)"
    by (simp add: reg_aligned_def)
  have h6: "''individual'' \<in> set (keys reg_aligned)"
    by (simp add: reg_aligned_def)
  have h7: "filter (\<lambda>k. k \<noteq> ''individual'') (keys reg_aligned) = keys two_types"
    by (simp add: reg_aligned_def two_types_def)
  have shape: "map (\<lambda>p. (fst p, nc (snd p))) two_types = [(''g'', 2), (''h'', 1)]"
    "2 + sum_list (map (\<lambda>p. nc (snd p)) two_types) = 5"
    by (simp_all add: two_types_def G_g_def G_h_def)
  have h3': "list_all (\<lambda>p. nr (snd p) = 2) two_types"
    using h3 by (simp add: list_all_iff)
  from SpringRank_groups_operator_symmetric [OF h1 h2 h3 h4 h5 h6 h7]
  show ?thesis
    unfolding shape using h1 h2 h3' h4 h5 h7 by simp
qed

text \<open>
  C5, as stated, fails: the symmetry depends on the iteration order of the two mappings.
  The columns of \<open>K\<close> follow the order of \<open>G\<close> (line 125), its rows the order of
  \<open>reg_coeff\<close> (line 130). With \<open>G\<close> in the order \<open>g, h\<close> and \<open>reg_coeff\<close> in the
  order \<open>individual, h, g\<close> the operator is 5 by 5, its entry \<open>(2, 4)\<close> is 3 and its
  entry \<open>(4, 2)\<close> is -1.
\<close>

theorem SpringRank_groups_operator_order_counterexample:
  "operator_shape (SpringRank_groups_system one_edge two_types reg_swapped) = Inr (5, 5)
   \<and> operator_entry (SpringRank_groups_system one_edge two_types reg_swapped) 2 4 = Inr 3
   \<and> operator_entry (SpringRank_groups_system one_edge two_types reg_swapped) 4 2 = Inr (- 1)"
  by code_simp

section \<open>The decomposition of the grouped ranks\<close>

lemma add_group_terms_append:
  "add_group_terms (G1 @ G2) sc r = ebind (add_group_terms G1 sc r) (\<lambda>r'. add_group_terms G2 sc r')"
proof (induction G1 arbitrary: r)
  case Nil
  then show ?case by simp
next
  case (Cons p G1)
  obtain t G_t where p: "p = (t, G_t)" by (cases p)
  show ?case
    using Cons.IH by (simp add: p ebind_def split: sum.splits)
qed

lemma add_group_terms_cong:
  "\<forall>k\<in>set (keys G). map_of sc k = map_of sc' k \<Longrightarrow>
   add_group_terms G sc r = add_group_terms G sc' r"
proof (induction G arbitrary: r)
  case Nil
  then show ?case by simp
next
  case (Cons p G)
  obtain t G_t where p: "p = (t, G_t)" by (cases p)
  have "dict_get sc t = dict_get sc' t" using Cons.prems p by (simp add: dict_get_def)
  moreover have "add_group_terms G sc = add_group_terms G sc'"
    using Cons by (intro ext) simp
  ultimately show ?case by (simp add: p)
qed

lemma rearrange_recombine:
  assumes "rearrange G x (map (\<lambda>p. (fst p, nc (snd p))) G2) (scores, ranks, prev)
      = Inr (scores', ranks', prev')"
    and "G = G1 @ G2" and "distinct (keys G)" and "''individual'' \<notin> set (keys G)"
    and "keys scores = ''individual'' # keys G1"
    and "map_of scores ''individual'' = Some s0"
    and "add_group_terms G1 scores s0 = Inr ranks"
  shows "keys scores' = ''individual'' # keys G
    \<and> map_of scores' ''individual'' = Some s0
    \<and> add_group_terms G scores' s0 = Inr ranks'"
  using assms
proof (induction G2 arbitrary: G1 scores ranks prev)
  case Nil
  then show ?case by simp
next
  case (Cons p G2)
  obtain t G_t where p: "p = (t, G_t)" by (cases p)
  define s where "s = take (nc G_t) (drop prev x)"
  have G: "G = G1 @ (t, G_t) # G2" using Cons.prems(2) p by simp
  have tnew: "t \<notin> set (keys scores)"
    using Cons.prems(3,4,5) G by auto
  have sc: "dict_set scores t s = scores @ [(t, s)]"
    by (rule dict_set_append [OF tnew])
  have "(t, G_t) \<in> set G" using G by simp
  then have Gt: "dict_get G t = Inr G_t"
    using Cons.prems(3) by (simp add: dict_get_def keys_def)
  have none: "map_of scores t = None"
    using tnew by (simp add: keys_def map_of_eq_None_iff)
  have get: "dict_get (scores @ [(t, s)]) t = Inr s"
    by (simp add: dict_get_def map_add_def none)
  from Cons.prems(1) obtain v r1 where
    v: "np_matmul_v G_t s = Inr v" and r1: "np_iadd_v ranks v = Inr r1"
    and rest: "rearrange G x (map (\<lambda>p. (fst p, nc (snd p))) G2)
        (scores @ [(t, s)], r1, prev + nc G_t) = Inr (scores', ranks', prev')"
    by (auto simp: p sc Gt get s_def [symmetric] Let_def ebind_def split: sum.splits)
  have same: "\<forall>k\<in>set (keys G1). map_of scores k = map_of (scores @ [(t, s)]) k"
  proof
    fix k assume "k \<in> set (keys G1)"
    then have "k \<in> set (keys scores)" using Cons.prems(5) by simp
    then have "map_of scores k \<noteq> None"
      by (simp add: keys_def map_of_eq_None_iff)
    then show "map_of scores k = map_of (scores @ [(t, s)]) k"
      by (auto simp: map_add_def)
  qed
  have ind: "map_of (scores @ [(t, s)]) ''individual'' = Some s0"
    using Cons.prems(6) by simp
  have "add_group_terms (G1 @ [(t, G_t)]) (scores @ [(t, s)]) s0 = Inr r1"
    using Cons.prems(7) add_group_terms_cong [OF same, of s0] get v r1
    by (simp add: add_group_terms_append)
  moreover have "keys (scores @ [(t, s)]) = ''individual'' # keys (G1 @ [(t, G_t)])"
    using Cons.prems(5) by simp
  moreover have "G = (G1 @ [(t, G_t)]) @ G2" using G by simp
  ultimately show ?case
    using Cons.IH [OF rest _ Cons.prems(3,4) _ ind] by blast
qed

lemma groups_system_num_groups:
  "SpringRank_groups_system A G reg_coeff = Inr (K, d_hat, ng) \<Longrightarrow> ng = make_num_groups G []"
  by (auto simp: SpringRank_groups_system_def Let_def ebind_def split: sum.splits if_splits prod.splits)

text \<open>
  C7. Whenever \<open>SpringRank_groups\<close> returns, on a group mapping \<open>G\<close> (a dictionary, so
  with distinct keys) whose group types are other than the reserved key \<open>individual\<close>,
  the returned \<open>scores\<close> mapping has the key \<open>individual\<close> followed by every key of
  \<open>G\<close>, and the returned \<open>ranks\<close> are \<open>scores[individual]\<close> plus the sum over the group
  types \<open>t\<close> of \<open>G\<^sub>t\<close> times \<open>scores[t]\<close>.
\<close>

theorem SpringRank_groups_ranks_decomposition:
  assumes "SpringRank_groups la A G reg_coeff solver = Inr (ranks, scores)"
    and "distinct (keys G)" and "''individual'' \<notin> set (keys G)"
  shows "keys scores = ''individual'' # keys G \<and> recombine G scores = Inr ranks"
proof -
  from assms(1) obtain K d_hat ng x prev where
    sys: "SpringRank_groups_system A G reg_coeff = Inr (K, d_hat, ng)"
    and re: "rearrange G x ng ([(''individual'', take (nr A) x)], take (nr A) x, nr A)
        = Inr (scores, ranks, prev)"
    by (auto simp: SpringRank_groups_def Let_def ebind_def split: sum.splits prod.splits)
  have ng: "ng = map (\<lambda>p. (fst p, nc (snd p))) G"
    using groups_system_num_groups [OF sys] make_num_groups_eq [of "[]" G] assms(2) by simp
  have "keys scores = ''individual'' # keys G
    \<and> map_of scores ''individual'' = Some (take (nr A) x)
    \<and> add_group_terms G scores (take (nr A) x) = Inr ranks"
    by (rule rearrange_recombine [OF re [unfolded ng], of "[]"]) (simp_all add: assms)
  then show ?thesis
    by (simp add: recombine_def dict_get_def)
qed

text \<open>
  On the two-node network with the group types \<open>g\<close> and \<open>h\<close>: the individual scores
  \<open>[1, -1]\<close>, the scores \<open>[1, -1]\<close> of \<open>g\<close> and \<open>[0]\<close> of \<open>h\<close> add up to the ranks
  \<open>[2, -2]\<close>.
\<close>

theorem SpringRank_groups_ranks_decomposition_witness:
  "SpringRank_groups la_converged one_edge two_types reg_aligned ''bicgstab''
     = Inr ([2, - 2], [(''individual'', [1, - 1]), (''g'', [1, - 1]), (''h'', [0])])
   \<and> distinct (keys two_types) \<and> ''individual'' \<notin> set (keys two_types)
   \<and> keys [(''individual'', [1, - 1 :: real]), (''g'', [1, - 1]), (''h'', [0])]
       = ''individual'' # keys two_types
   \<and> recombine two_types [(''individual'', [1, - 1]), (''g'', [1, - 1]), (''h'', [0])]
       = Inr [2, - 2]"
proof -
  have r: "SpringRank_groups la_converged one_edge two_types reg_aligned ''bicgstab''
     = Inr ([2, - 2], [(''individual'', [1, - 1]), (''g'', [1, - 1]), (''h'', [0])])"
    by code_simp
  have d: "distinct (keys two_types)" and i: "''individual'' \<notin> set (keys two_types)"
    by (simp_all add: two_types_def)
  from SpringRank_groups_ranks_decomposition [OF r d i] r d i show ?thesis
    by simp
qed

section \<open>Missing keys and the convergence signal\<close>

lemma make_blocks_succeeds:
  "\<forall>p\<in>set G. nr (snd p) = nc L \<Longrightarrow> \<exists>blocks. make_blocks L G acc = Inr blocks"
proof (induction G arbitrary: acc)
  case Nil
  then show ?case by simp
next
  case (Cons p G)
  obtain t G_i where p: "p = (t, G_i)" by (cases p)
  show ?case using Cons p by (simp add: matmul_checked_def)
qed

lemma dict_get_missing:
  "k \<notin> set (keys d) \<Longrightarrow> dict_get d k = Inl (KeyError k)"
  by (simp add: dict_get_def keys_def map_of_eq_None_iff [THEN iffD2])

text \<open>
  C4, amended. If \<open>reg_coeff\<close> lacks the key \<open>individual\<close>, \<open>SpringRank_groups\<close>
  fails while the system is assembled, before any solver is called, whatever \<open>A\<close>,
  \<open>G\<close> and the solver are; for a square \<open>A\<close> and group matrices with \<open>N\<close> rows the
  error is the KeyError of line 124.
\<close>

theorem SpringRank_groups_missing_individual:
  assumes "''individual'' \<notin> set (keys reg_coeff)"
  shows "\<exists>e. SpringRank_groups_system A G reg_coeff = Inl e
     \<and> SpringRank_groups la A G reg_coeff solver = Inl e
     \<and> (nr A = nc A \<longrightarrow> (\<forall>p\<in>set G. nr (snd p) = nr A) \<longrightarrow> e = KeyError ''individual'')"
proof -
  have missing: "dict_get reg_coeff ''individual'' = Inl (KeyError ''individual'')"
    by (rule dict_get_missing [OF assms])
  have fails: "\<exists>e. SpringRank_groups_system A G reg_coeff = Inl e"
  proof (cases "nr A = nc A")
    case False
    then show ?thesis by (simp add: SpringRank_groups_system_def Let_def)
  next
    case True
    show ?thesis
    proof (cases "construct_laplacian A")
      case (Inl e)
      then show ?thesis using True by (simp add: SpringRank_groups_system_def Let_def)
    next
      case (Inr L)
      show ?thesis
      proof (cases "make_blocks L G []")
        case (Inl e)
        then show ?thesis using True Inr by (simp add: SpringRank_groups_system_def Let_def)
      next
        case (Inr blocks)
        then show ?thesis
          using True \<open>construct_laplacian A = Inr L\<close>
          by (simp add: SpringRank_groups_system_def Let_def missing)
      qed
    qed
  qed
  then obtain e where e: "SpringRank_groups_system A G reg_coeff = Inl e" by blast
  have "e = KeyError ''individual''" if sq: "nr A = nc A" and rows: "\<forall>p\<in>set G. nr (snd p) = nr A"
  proof -
    obtain L where L: "construct_laplacian A = Inr L" "nc L = nr A"
      using construct_laplacian_square [OF refl sq [symmetric]] by blast
    obtain blocks where b: "make_blocks L G [] = Inr blocks"
      using make_blocks_succeeds [of G L "[]"] rows L by simp blast
    have "SpringRank_groups_system A G reg_coeff = Inl (KeyError ''individual'')"
      using sq by (simp add: SpringRank_groups_system_def Let_def L b missing)
    then show ?thesis using e by simp
  qed
  then show ?thesis
    using e by (auto simp: SpringRank_groups_def)
qed

text \<open>
  Coefficients for the group types \<open>g\<close> and \<open>h\<close> only: the call fails with the
  KeyError.
\<close>

theorem SpringRank_groups_missing_individual_witness:
  "''individual'' \<notin> set (keys [(''g'', 2 :: real), (''h'', 3)])
   \<and> SpringRank_groups_system one_edge two_types [(''g'', 2), (''h'', 3)] = Inl (KeyError ''individual'')
   \<and> SpringRank_groups la_converged one_edge two_types [(''g'', 2), (''h'', 3)] ''spsolve''
        = Inl (KeyError ''individual'')"
proof -
  have h: "''individual'' \<notin> set (keys [(''g'', 2 :: real), (''h'', 3)])" by simp
  have sq: "nr one_edge = nc one_edge" by (simp add: one_edge_def)
  have rows: "\<forall>p\<in>set two_types. nr (snd p) = nr one_edge"
    by (simp add: two_types_def G_g_def G_h_def one_edge_def)
  from SpringRank_groups_missing_individual
    [OF h, where A = one_edge and G = two_types and la = la_converged and solver = "''spsolve''"]
    sq rows h
  show ?thesis by auto
qed

text \<open>
  C4, as stated, fails: a key of \<open>G\<close> that \<open>reg_coeff\<close> lacks is not detected. The loop
  of line 130 runs over the keys of \<open>reg_coeff\<close>, so the block row of the missing group
  type is left out, and the solver is called on the system that results. With the group
  types \<open>g\<close> and \<open>h\<close> and coefficients for \<open>individual\<close> and \<open>g\<close> only the operator
  has 4 rows and 5 columns, and with the least-squares solver the call returns ranks and
  scores.
\<close>

theorem SpringRank_groups_missing_group_key_counterexample:
  "operator_shape (SpringRank_groups_system one_edge two_types reg_without_h) = Inr (4, 5)
   \<and> SpringRank_groups la_converged one_edge two_types reg_without_h ''lsqr''
        = Inr ([2, - 2], [(''individual'', [1, - 1]), (''g'', [1, - 1]), (''h'', [0])])"
  by code_simp

lemma ebind_fst_cong:
  assumes "map_sum id fst r = map_sum id fst r'"
  shows "ebind r (\<lambda>out. f (fst out)) = ebind r' (\<lambda>out. f (fst out))"
  using assms by (cases r; cases r') (auto simp: ebind_def)

text \<open>
  C2, amended. Every rank computation that uses \<open>bicgstab\<close> returns the iterate alone:
  the \<open>info\<close> code of the solver is dropped (lines 46, 79, 152 and 158 take component 0
  of the output), so two solvers that return the same iterates and differ only in
  \<open>info\<close> give the same result, and no convergence-failure signal reaches the caller.
\<close>

theorem rank_computations_discard_info:
  assumes "\<forall>K d. map_sum id fst (bicgstab la K d) = map_sum id fst (bicgstab la' K d)"
  shows "csr_SpringRank la A = csr_SpringRank la' A
     \<and> SpringRank la A alpha = SpringRank la' A alpha
     \<and> (solver \<noteq> ''spsolve'' \<longrightarrow> solver \<noteq> ''lsqr'' \<longrightarrow>
          SpringRank_groups la A G reg_coeff solver = SpringRank_groups la' A G reg_coeff solver)"
proof -
  have b1: "ebind (bicgstab la K d) (\<lambda>out. Inr (butlast (fst out)))
      = ebind (bicgstab la' K d) (\<lambda>out. Inr (butlast (fst out)))" for K d
    using assms by (intro ebind_fst_cong [where f = "\<lambda>x. Inr (butlast x)"]) simp
  have b2: "ebind (bicgstab la K d) (\<lambda>out. Inr (fst out))
      = ebind (bicgstab la' K d) (\<lambda>out. Inr (fst out))" for K d
    using assms by (intro ebind_fst_cong [where f = Inr]) simp
  have csr: "csr_SpringRank la A = csr_SpringRank la' A"
    by (simp add: csr_SpringRank_def b1)
  have reg: "SpringRank la A alpha = SpringRank la' A alpha"
    by (simp add: SpringRank_def csr b2)
  have run: "run_solver la solver K d = run_solver la' solver K d"
    if "solver \<noteq> ''spsolve''" "solver \<noteq> ''lsqr''" for K d
    using that by (simp add: run_solver_def b2)
  show ?thesis
    using csr reg run by (simp add: SpringRank_groups_def)
qed

text \<open>
  The stand-in that reports a stalled iteration and the one that reports convergence give
  the same results.
\<close>

theorem rank_computations_discard_info_witness:
  "csr_SpringRank la_stalled one_edge = csr_SpringRank la_converged one_edge
   \<and> SpringRank la_stalled one_edge 1 = SpringRank la_converged one_edge 1
   \<and> SpringRank_groups la_stalled one_edge two_types reg_aligned ''bicgstab''
       = SpringRank_groups la_converged one_edge two_types reg_aligned ''bicgstab''"
proof -
  have h: "\<forall>K d. map_sum id fst (bicgstab la_stalled K d) = map_sum id fst (bicgstab la_converged K d)"
    by (simp add: la_stalled_def la_converged_def)
  from rank_computations_discard_info
    [OF h, where A = one_edge and alpha = 1 and solver = "''bicgstab''" and G = two_types
      and reg_coeff = reg_aligned]
  show ?thesis by simp
qed

text \<open>
  C2, as stated, fails: a solve that did not converge is returned as a plain success.
  The stalled stand-in reports \<open>info = 20\<close> on each of the three systems, and each rank
  computation returns the iterate without any signal, exactly as with the converged
  stand-in.
\<close>

theorem rank_computations_silent_counterexample:
  "ebind (SpringRank_system one_edge 1) (\<lambda>(K, d). bicgstab la_stalled K d) = Inr ([2, 0], 20)
   \<and> SpringRank la_stalled one_edge 1 = Inr [2, 0]
   \<and> SpringRank la_converged one_edge 1 = Inr [2, 0]
   \<and> ebind (csr_SpringRank_system one_edge) (\<lambda>(K, d). bicgstab la_stalled K d) = Inr ([1, - 1, 0], 20)
   \<and> SpringRank la_stalled one_edge 0 = Inr [1, - 1]
   \<and> SpringRank la_converged one_edge 0 = Inr [1, - 1]
   \<and> ebind (SpringRank_groups_system one_edge two_types reg_aligned)
        (\<lambda>(K, d_hat, num_groups). bicgstab la_stalled K d_hat) = Inr ([1, - 1, 1, - 1, 0], 20)
   \<and> SpringRank_groups la_stalled one_edge two_types reg_aligned ''bicgstab''
        = Inr ([2, - 2], [(''individual'', [1, - 1]), (''g'', [1, - 1]), (''h'', [0])])
   \<and> SpringRank_groups la_converged one_edge two_types reg_aligned ''bicgstab''
        = Inr ([2, - 2], [(''individual'', [1, - 1]), (''g'', [1, - 1]), (''h'', [0])])"
  by code_simp

section \<open>The samplers\<close>

lemma sampled_pairs_one [simp]: "sampled_pairs (Suc 0) False = []"
  by (simp add: sampled_pairs_def all_pairs_def)


text \<open>
  C9 fails on the code. The group assignment and the edge counts are drawn from the
  global source of numpy (\<open>np.random.randint\<close> at line 271, \<open>np.random.poisson\<close> at
  line 306), not from the supplied generator that the scores are drawn from (lines 263
  and 280). Two calls with equal arguments and the supplied generator in the same state:
  the first, with the global source in state 0, puts the node into group 0 and leaves
  the global source in state 1; the second, run on that state, puts the node into
  group 1.
\<close>

theorem one_node_call_depends_on_global_source:
  "membership_row (fst (one_node_call 0 0)) ''g'' 0 = Returned [1, 0]
   \<and> snd (snd (one_node_call 0 0)) = 1
   \<and> membership_row (fst (one_node_call 0 1)) ''g'' 0 = Returned [0, 1]"
  by (simp add: one_node_call_def SpringRank_planted_network_groups_def lookup_def
      prior_scale_def counter_ops_def Let_def membership_row_def result_groups_def
      set_ent_def vadd_def matvec_def eval_nat_numeral)











end
